theory Spec2Isabelle
  imports Main "HOL-Library.Word"
begin

section \<open>JavaScript strings and the string operations of extension.ts\<close>

text \<open>
  A JavaScript string is a sequence of UTF-16 code units; \<open>length\<close>, \<open>split\<close>,
  \<open>trimStart\<close>, \<open>repeat\<close>, \<open>includes\<close> and \<open>join\<close> all work on code units.
  The text of a file is the string that \<open>fs.readFile(path, 'utf8')\<close> decodes from its
  bytes, and \<open>fs.writeFile(path, text, 'utf8')\<close> stores the encoding of a string.
\<close>

type_synonym code_unit = "16 word"
type_synonym jsstring = "code_unit list"

definition LF :: code_unit where "LF = 0x0A"
definition CR :: code_unit where "CR = 0x0D"
definition TAB :: code_unit where "TAB = 0x09"
definition SPACE :: code_unit where "SPACE = 0x20"

text \<open>An ASCII literal of the source as a JavaScript string.\<close>

definition ascii :: "string \<Rightarrow> jsstring" where
  "ascii s = map of_char s"

text \<open>
  \<open>s.split(/\r?\n/)\<close>: the separator is matched at the leftmost position where the
  regular expression matches; \<open>\r?\<close> is greedy, so a carriage return directly before a
  line feed belongs to the separator, and any other carriage return stays in the line.
  The empty string splits into one empty line.
\<close>

fun cons_head :: "code_unit \<Rightarrow> jsstring list \<Rightarrow> jsstring list" where
  "cons_head c [] = [[c]]"
| "cons_head c (l # ls) = (c # l) # ls"

fun split_lines :: "jsstring \<Rightarrow> jsstring list" where
  "split_lines [] = [[]]"
| "split_lines [c] = (if c = LF then [[], []] else [[c]])"
| "split_lines (c # d # cs) =
     (if c = LF then [] # split_lines (d # cs)
      else if c = CR \<and> d = LF then [] # split_lines cs
      else cons_head c (split_lines (d # cs)))"

text \<open>\<open>xs.join(sep)\<close> on an array of strings.\<close>

fun js_join :: "jsstring \<Rightarrow> jsstring list \<Rightarrow> jsstring" where
  "js_join sep [] = []"
| "js_join sep [x] = x"
| "js_join sep (x # y # ys) = x @ sep @ js_join sep (y # ys)"

text \<open>
  \<open>trimStart\<close> removes the leading run of WhiteSpace and LineTerminator code units of
  ECMAScript: TAB, VT, FF, SP, NBSP, ZWNBSP, the other space separators, LF, CR, LS, PS.
\<close>

definition isWhiteSpace :: "code_unit \<Rightarrow> bool" where
  "isWhiteSpace c \<longleftrightarrow>
     c \<in> {0x09, 0x0A, 0x0B, 0x0C, 0x0D, 0x20, 0xA0, 0x1680,
          0x2000, 0x2001, 0x2002, 0x2003, 0x2004, 0x2005, 0x2006, 0x2007,
          0x2008, 0x2009, 0x200A, 0x2028, 0x2029, 0x202F, 0x205F, 0x3000, 0xFEFF}"

definition trimStart :: "jsstring \<Rightarrow> jsstring" where
  "trimStart s = dropWhile isWhiteSpace s"

text \<open>\<open>xs.slice(start, end)\<close> with the clamping of negative and too large indices.\<close>

definition js_slice :: "'a list \<Rightarrow> int \<Rightarrow> int \<Rightarrow> 'a list" where
  "js_slice xs start fin =
     (let len = int (length xs);
          k = (if start < 0 then max (len + start) 0 else min start len);
          final = (if fin < 0 then max (len + fin) 0 else min fin len)
      in take (nat (final - k)) (drop (nat k) xs))"

text \<open>\<open>s.includes(sub)\<close>: \<open>sub\<close> occurs in \<open>s\<close> as a contiguous run.\<close>

fun starts_with :: "'a list \<Rightarrow> 'a list \<Rightarrow> bool" where
  "starts_with s [] = True"
| "starts_with [] (p # ps) = False"
| "starts_with (c # cs) (p # ps) = (c = p \<and> starts_with cs ps)"

fun js_includes :: "'a list \<Rightarrow> 'a list \<Rightarrow> bool" where
  "js_includes [] sub = (sub = [])"
| "js_includes (c # cs) sub = (starts_with (c # cs) sub \<or> js_includes cs sub)"

section \<open>Errors and the file system\<close>

text \<open>
  What \<open>modifyFileWithPatch\<close> can raise: the rejections of \<open>fs.readFile\<close> and
  \<open>fs.writeFile\<close>, \<open>new Error('Invalid line range')\<close>, and the RangeError of
  \<open>String.prototype.repeat\<close> on a negative count.
\<close>

datatype patch_error =
    ReadFailure jsstring
  | WriteFailure jsstring
  | InvalidRange
  | RangeError

text \<open>
  A file holds bytes. \<open>fs.readFile(path, 'utf8')\<close> decodes them as UTF-8 and
  \<open>fs.writeFile(path, text, 'utf8')\<close> encodes the string as UTF-8.

  Decoding follows the decoder of the Encoding standard, which Node uses for buffers: a
  byte that cannot start or continue a sequence ends the sequence read so far, which
  yields one U+FFFD, and is then read again as the start of a sequence; a sequence cut off
  by the end of the input yields one U+FFFD; a byte order mark is kept. The state is the
  number of bytes still needed, the code point so far, and the bounds of the next byte.
\<close>

type_synonym byte = "8 word"

definition REPLACEMENT :: code_unit where "REPLACEMENT = 0xFFFD"

text \<open>The code units of a code point: itself, or a surrogate pair above U+FFFF.\<close>

definition code_units :: "nat \<Rightarrow> jsstring" where
  "code_units cp =
     (if cp < 0x10000 then [of_nat cp]
      else [of_nat (0xD800 + (cp - 0x10000) div 0x400), of_nat (0xDC00 + (cp - 0x10000) mod 0x400)])"

type_synonym utf8_state = "nat \<times> nat \<times> nat \<times> nat"

definition utf8_start :: utf8_state where
  "utf8_start = (0, 0, 0x80, 0xBF)"

text \<open>A byte read when no byte is needed: what it yields and the state after it.\<close>

definition lead_byte :: "nat \<Rightarrow> jsstring \<times> utf8_state" where
  "lead_byte v =
     (if v \<le> 0x7F then ([of_nat v], utf8_start)
      else if 0xC2 \<le> v \<and> v \<le> 0xDF then ([], (1, v mod 0x20, 0x80, 0xBF))
      else if 0xE0 \<le> v \<and> v \<le> 0xEF
        then ([], (2, v mod 0x10, if v = 0xE0 then 0xA0 else 0x80, if v = 0xED then 0x9F else 0xBF))
      else if 0xF0 \<le> v \<and> v \<le> 0xF4
        then ([], (3, v mod 0x08, if v = 0xF0 then 0x90 else 0x80, if v = 0xF4 then 0x8F else 0xBF))
      else ([REPLACEMENT], utf8_start))"

definition utf8_step :: "utf8_state \<Rightarrow> byte \<Rightarrow> jsstring \<times> utf8_state" where
  "utf8_step st b =
     (case st of (needed, cp, lo, hi) \<Rightarrow>
        let v = unat b in
        if needed = 0 then lead_byte v
        else if v < lo \<or> hi < v
          then (case lead_byte v of (out, st') \<Rightarrow> (REPLACEMENT # out, st'))
        else
          let cp' = cp * 0x40 + v mod 0x40 in
          if needed = 1 then (code_units cp', utf8_start)
          else ([], (needed - 1, cp', 0x80, 0xBF)))"

fun utf8_run :: "utf8_state \<Rightarrow> byte list \<Rightarrow> jsstring" where
  "utf8_run st [] = (if fst st = 0 then [] else [REPLACEMENT])"
| "utf8_run st (b # bs) = (case utf8_step st b of (out, st') \<Rightarrow> out @ utf8_run st' bs)"

definition utf8_decode :: "byte list \<Rightarrow> jsstring" where
  "utf8_decode bs = utf8_run utf8_start bs"

text \<open>
  Encoding: one to four bytes for a code point; a high surrogate directly before a low
  one is one code point above U+FFFF, and any other surrogate is written as U+FFFD.
\<close>

definition utf8_bytes :: "nat \<Rightarrow> byte list" where
  "utf8_bytes cp =
     (if cp < 0x80 then [of_nat cp]
      else if cp < 0x800 then [of_nat (0xC0 + cp div 0x40), of_nat (0x80 + cp mod 0x40)]
      else if cp < 0x10000
        then [of_nat (0xE0 + cp div 0x1000), of_nat (0x80 + cp div 0x40 mod 0x40),
              of_nat (0x80 + cp mod 0x40)]
      else [of_nat (0xF0 + cp div 0x40000), of_nat (0x80 + cp div 0x1000 mod 0x40),
            of_nat (0x80 + cp div 0x40 mod 0x40), of_nat (0x80 + cp mod 0x40)])"

definition is_high_surrogate :: "code_unit \<Rightarrow> bool" where
  "is_high_surrogate c \<longleftrightarrow> 0xD800 \<le> unat c \<and> unat c \<le> 0xDBFF"

definition is_low_surrogate :: "code_unit \<Rightarrow> bool" where
  "is_low_surrogate c \<longleftrightarrow> 0xDC00 \<le> unat c \<and> unat c \<le> 0xDFFF"

fun utf8_encode :: "jsstring \<Rightarrow> byte list" where
  "utf8_encode [] = []"
| "utf8_encode [c] =
     (if is_high_surrogate c \<or> is_low_surrogate c then utf8_bytes 0xFFFD
      else utf8_bytes (unat c))"
| "utf8_encode (c # d # cs) =
     (if is_high_surrogate c \<and> is_low_surrogate d
        then utf8_bytes (0x10000 + (unat c - 0xD800) * 0x400 + (unat d - 0xDC00)) @ utf8_encode cs
      else if is_high_surrogate c \<or> is_low_surrogate c
        then utf8_bytes 0xFFFD @ utf8_encode (d # cs)
      else utf8_bytes (unat c) @ utf8_encode (d # cs))"

text \<open>
  \<open>s.isWellFormed()\<close>: the string has no lone surrogate. Such a string is the text
  that its encoding decodes to.
\<close>

fun isWellFormed :: "jsstring \<Rightarrow> bool" where
  "isWellFormed [] = True"
| "isWellFormed [c] = (\<not> is_high_surrogate c \<and> \<not> is_low_surrogate c)"
| "isWellFormed (c # d # cs) =
     (if is_high_surrogate c \<and> is_low_surrogate d then isWellFormed cs
      else \<not> is_high_surrogate c \<and> \<not> is_low_surrogate c \<and> isWellFormed (d # cs))"

text \<open>
  The file system: the bytes of every readable file, and the paths that cannot be
  written. Reading a missing file and writing to a read-only path reject.
\<close>

record filesystem =
  files :: "jsstring \<rightharpoonup> byte list"
  readonly :: "jsstring set"

definition readFile :: "filesystem \<Rightarrow> jsstring \<Rightarrow> patch_error + jsstring" where
  "readFile fs p =
     (case files fs p of None \<Rightarrow> Inl (ReadFailure p) | Some bytes \<Rightarrow> Inr (utf8_decode bytes))"

definition writeFile :: "filesystem \<Rightarrow> jsstring \<Rightarrow> jsstring \<Rightarrow> (patch_error + unit) \<times> filesystem" where
  "writeFile fs p text =
     (if p \<in> readonly fs then (Inl (WriteFailure p), fs)
      else (Inr (), fs\<lparr>files := (files fs)(p \<mapsto> utf8_encode text)\<rparr>))"

section \<open>modifyFileWithPatch\<close>

text \<open>
  Lines 82-110 of extension.ts. \<open>startLine\<close> and \<open>endLine\<close> are the integers of a
  patch instruction (\<open>startLine: number\<close>, \<open>endLine: number\<close> of \<open>PatchResponse\<close>).
  The result is the outcome of the call together with the file system it leaves.
  \<open>indent_of\<close> is the expression of lines 95-96 for the line at \<open>startLine\<close>.
\<close>

definition indent_of :: "jsstring \<Rightarrow> patch_error + jsstring" where
  "indent_of line =
     (let count = int (length line) - int (length (trimStart line))
      in if count < 0 then Inl RangeError else Inr (replicate (nat count) SPACE))"

definition modifyFileWithPatch ::
  "filesystem \<Rightarrow> jsstring \<Rightarrow> int \<Rightarrow> int \<Rightarrow> jsstring \<Rightarrow> (patch_error + unit) \<times> filesystem" where
  "modifyFileWithPatch fs absPath startLine endLine patch =
     (case readFile fs absPath of
        Inl e \<Rightarrow> (Inl e, fs)
      | Inr raw \<Rightarrow>
          let lines = split_lines raw in
          if startLine \<le> 0 \<or> endLine > int (length lines) \<or> startLine > endLine
          then (Inl InvalidRange, fs)
          else
            (case indent_of (lines ! nat (startLine - 1)) of
               Inl e \<Rightarrow> (Inl e, fs)
             | Inr indent \<Rightarrow>
                 let indentedPatch = js_join [LF] (map (\<lambda>l. indent @ l) (split_lines patch));
                     updated = js_join [LF]
                       (js_slice lines 0 (startLine - 1) @ [indentedPatch]
                        @ js_slice lines endLine (int (length lines)))
                 in writeFile fs absPath updated))"

section \<open>fetchTags\<close>

text \<open>
  Lines 36-46 of extension.ts. A page of the tag listing is whatever \<open>res.json()\<close>
  parses, so the model has JSON values; an object keeps its members in the order of the
  text, and a later member of the same name replaces an earlier one.
\<close>

datatype json =
    JNull
  | JBool bool
  | JNum int
  | JStr jsstring
  | JArr "json list"
  | JObj "(jsstring \<times> json) list"

text \<open>
  \<open>await fetch(url, ...)\<close> followed by \<open>await res.json()\<close>: either of them rejects, or
  the body parses.
\<close>

datatype fetch_result = Rejected | Body json

datatype fetch_error = FetchFailure | TypeError

text \<open>
  \<open>t.name\<close>: a TypeError on \<open>null\<close>, the member of an object if it has one, and
  \<open>undefined\<close> (here \<open>None\<close>) in every other case.
\<close>

fun get_name :: "json \<Rightarrow> fetch_error + json option" where
  "get_name JNull = Inl TypeError"
| "get_name (JObj members) = Inr (map_of (rev members) (ascii ''name''))"
| "get_name (JBool b) = Inr None"
| "get_name (JNum n) = Inr None"
| "get_name (JStr s) = Inr None"
| "get_name (JArr xs) = Inr None"

text \<open>
  The value of \<open>t.name\<close> for an element \<open>t\<close> that is not \<open>null\<close>, written out
  for the statements about the names that \<open>fetchTags\<close> returns.
\<close>

abbreviation name_member :: "json \<Rightarrow> json option" where
  "name_member t \<equiv>
     (case t of JObj members \<Rightarrow> map_of (rev members) (ascii ''name'') | _ \<Rightarrow> None)"

text \<open>\<open>data.map((t: any) => t.name)\<close>, which stops at the first element that raises.\<close>

fun map_name :: "json list \<Rightarrow> fetch_error + json option list" where
  "map_name [] = Inr []"
| "map_name (t # ts) =
     (case get_name t of
        Inl e \<Rightarrow> Inl e
      | Inr n \<Rightarrow> (case map_name ts of Inl e \<Rightarrow> Inl e | Inr ns \<Rightarrow> Inr (n # ns)))"

text \<open>
  The loop \<open>for (let page = 1; ; page++)\<close>. \<open>api\<close> answers the request for a page;
  \<open>requested\<close> is the list of the pages asked for so far. The loop has no bound of its
  own, so its value is an option: \<open>None\<close> when it never leaves.
\<close>

partial_function (option) fetchTags_loop ::
  "(nat \<Rightarrow> fetch_result) \<Rightarrow> nat \<Rightarrow> json option list \<Rightarrow> nat list
     \<Rightarrow> ((fetch_error + json option list) \<times> nat list) option" where
  "fetchTags_loop api page tags requested =
     (case api page of
        Rejected \<Rightarrow> Some (Inl FetchFailure, requested @ [page])
      | Body data \<Rightarrow>
          (case data of
             JArr elems \<Rightarrow>
               if length elems = 0 then Some (Inr tags, requested @ [page])
               else (case map_name elems of
                       Inl e \<Rightarrow> Some (Inl e, requested @ [page])
                     | Inr names \<Rightarrow>
                         fetchTags_loop api (page + 1) (tags @ names) (requested @ [page]))
           | JNull \<Rightarrow> Some (Inr tags, requested @ [page])
           | JBool b \<Rightarrow> Some (Inr tags, requested @ [page])
           | JNum n \<Rightarrow> Some (Inr tags, requested @ [page])
           | JStr s \<Rightarrow> Some (Inr tags, requested @ [page])
           | JObj members \<Rightarrow> Some (Inr tags, requested @ [page])))"

definition fetchTags ::
  "(jsstring \<Rightarrow> nat \<Rightarrow> fetch_result) \<Rightarrow> jsstring
     \<Rightarrow> ((fetch_error + json option list) \<times> nat list) option" where
  "fetchTags api token = fetchTags_loop (api token) 1 [] []"

section \<open>checkoutTag\<close>

text \<open>
  Lines 51-77 of extension.ts, and the call of it in \<open>backportToCommand\<close> (lines
  178-179). The three command lines that are run, each with the directory it concerns:
  \<open>git fetch --tags\<close>, \<open>git checkout <tag>\<close> and
  \<open>git config --global --add safe.directory <ws>\<close>.
\<close>

datatype command =
    GitFetchTags jsstring
  | GitCheckout jsstring jsstring
  | GitConfigSafeDirectory jsstring

text \<open>The rejection value of the promisified \<open>child_process.exec\<close>.\<close>

record exec_error =
  stderr :: "jsstring option"
  message :: jsstring

datatype exec_result = Done | Failed exec_error

datatype checkout_error = JsError jsstring | ExecRejection exec_error

datatype event =
    Exec command
  | ShowInformation jsstring
  | ShowWarning jsstring
  | ShowError jsstring

text \<open>
  The surroundings of a call: the first workspace folder if there is one, the outcome of
  a command given the commands run before it, and the button the user picks in the modal
  warning (\<open>None\<close> when the warning is dismissed).
\<close>

record environment =
  workspaceFolder :: "jsstring option"
  shell :: "command list \<Rightarrow> command \<Rightarrow> exec_result"
  userChoice :: "jsstring option"

fun commands_of :: "event list \<Rightarrow> command list" where
  "commands_of [] = []"
| "commands_of (Exec c # evs) = c # commands_of evs"
| "commands_of (ShowInformation m # evs) = commands_of evs"
| "commands_of (ShowWarning m # evs) = commands_of evs"
| "commands_of (ShowError m # evs) = commands_of evs"

definition execAsync :: "environment \<Rightarrow> event list \<Rightarrow> command \<Rightarrow> exec_result \<times> event list" where
  "execAsync env trace c = (shell env (commands_of trace) c, trace @ [Exec c])"

definition DQUOTE :: code_unit where "DQUOTE = 0x22"

text \<open>The body of the \<open>try\<close> block, lines 56-58.\<close>

definition try_block :: "environment \<Rightarrow> jsstring \<Rightarrow> jsstring \<Rightarrow> (exec_error + unit) \<times> event list" where
  "try_block env ws tag =
     (case execAsync env [] (GitFetchTags ws) of
        (Failed err, t1) \<Rightarrow> (Inl err, t1)
      | (Done, t1) \<Rightarrow>
          (case execAsync env t1 (GitCheckout tag ws) of
             (Failed err, t2) \<Rightarrow> (Inl err, t2)
           | (Done, t2) \<Rightarrow>
               (Inr (), t2 @ [ShowInformation
                  (ascii ''Checked out tag '' @ [DQUOTE] @ tag @ [DQUOTE])])))"

definition dubious_warning :: jsstring where
  "dubious_warning = ascii ''Git reports '' @ [0x201C] @ ascii ''dubious ownership'' @ [0x201D]
     @ ascii ''. Add this repo to safe.directory and retry?''"

definition checkoutTag :: "environment \<Rightarrow> jsstring \<Rightarrow> (checkout_error + unit) \<times> event list" where
  "checkoutTag env tag =
     (case workspaceFolder env of
        None \<Rightarrow> (Inl (JsError (ascii ''Open a workspace folder first'')), [])
      | Some ws \<Rightarrow>
          if ws = [] then (Inl (JsError (ascii ''Open a workspace folder first'')), [])
          else
            (case try_block env ws tag of
               (Inr u, t) \<Rightarrow> (Inr (), t)
             | (Inl err, t) \<Rightarrow>
                 let msg = (case stderr err of Some s \<Rightarrow> s | None \<Rightarrow> message err);
                     failed = Inl (JsError (ascii ''Git checkout failed: '' @ msg))
                 in
                 if js_includes msg (ascii ''dubious ownership'') then
                   let t3 = t @ [ShowWarning dubious_warning] in
                   if userChoice env = Some (ascii ''Add & Retry'') then
                     (case execAsync env t3 (GitConfigSafeDirectory ws) of
                        (Failed e, t4) \<Rightarrow> (Inl (ExecRejection e), t4)
                      | (Done, t4) \<Rightarrow>
                          (case execAsync env t4 (GitCheckout tag ws) of
                             (Failed e, t5) \<Rightarrow> (Inl (ExecRejection e), t5)
                           | (Done, t5) \<Rightarrow>
                               (Inr (), t5 @ [ShowInformation
                                  (ascii ''safe.directory added and checked out ''
                                   @ [DQUOTE] @ tag @ [DQUOTE] @ ascii ''.'')])))
                   else (failed, t3)
                 else (failed, t)))"

text \<open>\<open>String(e)\<close> for the errors that \<open>checkoutTag\<close> raises.\<close>

fun String_of :: "checkout_error \<Rightarrow> jsstring" where
  "String_of (JsError m) = ascii ''Error: '' @ m"
| "String_of (ExecRejection e) = ascii ''Error: '' @ message e"

text \<open>
  Lines 178-179: \<open>try { await checkoutTag(tag); } catch (e) { showErrorMessage(String(e)); return; }\<close>.
  The result tells whether the command goes on.
\<close>

definition checkout_step :: "environment \<Rightarrow> jsstring \<Rightarrow> bool \<times> event list" where
  "checkout_step env tag =
     (case checkoutTag env tag of
        (Inl e, t) \<Rightarrow> (False, t @ [ShowError (String_of e)])
      | (Inr u, t) \<Rightarrow> (True, t))"

section \<open>Properties of the string operations\<close>

lemma CR_neq_LF: "CR \<noteq> LF" "LF \<noteq> CR"
  by (simp_all add: CR_def LF_def)

lemma split_lines_not_Nil: "split_lines s \<noteq> []"
  by (induction s rule: split_lines.induct) (auto split: list.splits elim: cons_head.elims)

lemma set_cons_head: "l \<in> set (cons_head c ls) \<Longrightarrow> l \<in> set ls \<or> (\<exists>l'. l = c # l' \<and> (l' \<in> set ls \<or> l' = []))"
  by (cases ls) auto

lemma split_lines_no_LF: "l \<in> set (split_lines s) \<Longrightarrow> LF \<notin> set l"
proof (induction s arbitrary: l rule: split_lines.induct)
  case 1
  then show ?case by simp
next
  case (2 c)
  then show ?case by (auto split: if_splits)
next
  case (3 c d cs)
  then show ?case
    by (fastforce split: if_splits dest!: set_cons_head)
qed

lemma split_lines_single: "LF \<notin> set s \<Longrightarrow> split_lines s = [s]"
  by (induction s rule: split_lines.induct) auto

lemma js_join_Cons: "ls \<noteq> [] \<Longrightarrow> js_join sep (l # ls) = l @ sep @ js_join sep ls"
  by (cases ls) simp_all

lemma js_join_cons_head:
  "ls \<noteq> [] \<Longrightarrow> js_join sep (cons_head c ls) = c # js_join sep ls"
  by (cases ls; cases "tl ls") auto

lemma join_split_id: "\<not> js_includes s [CR, LF] \<Longrightarrow> js_join [LF] (split_lines s) = s"
proof (induction s rule: split_lines.induct)
  case 1
  then show ?case by simp
next
  case (2 c)
  then show ?case by simp
next
  case (3 c d cs)
  show ?case
  proof (cases "c = LF")
    case True
    with 3 show ?thesis
      by (simp add: js_join_Cons split_lines_not_Nil CR_neq_LF)
  next
    case False
    with 3 have "\<not> (c = CR \<and> d = LF)" by auto
    with False 3 show ?thesis
      by (auto simp: js_join_cons_head split_lines_not_Nil)
  qed
qed

lemma length_cons_head: "ls \<noteq> [] \<Longrightarrow> length (cons_head c ls) = length ls"
  by (cases ls) simp_all

lemma last_cons_head: "Suc 0 < length ls \<Longrightarrow> last (cons_head c ls) = last ls"
  by (cases ls) auto

lemma split_lines_snoc_LF:
  "last (split_lines (s @ [LF])) = [] \<and> length (split_lines (s @ [LF])) = Suc (length (split_lines s))"
proof (induction s rule: split_lines.induct)
  case 1
  then show ?case by simp
next
  case (2 c)
  then show ?case by (simp add: CR_neq_LF)
next
  case (3 c d cs)
  show ?case
  proof (cases "c = LF \<or> (c = CR \<and> d = LF)")
    case True
    with 3 show ?thesis
      by (auto simp: split_lines_not_Nil CR_neq_LF)
  next
    case False
    with 3 have ih: "last (split_lines (d # cs @ [LF])) = []"
      "length (split_lines (d # cs @ [LF])) = Suc (length (split_lines (d # cs)))"
      by auto
    have "Suc 0 < length (split_lines (d # cs @ [LF]))"
      using ih(2) split_lines_not_Nil[of "d # cs"] by (cases "split_lines (d # cs)") auto
    with False ih show ?thesis
      by (auto simp: split_lines_not_Nil length_cons_head last_cons_head)
  qed
qed

lemma js_slice_take: "0 \<le> k \<Longrightarrow> js_slice xs 0 k = take (nat k) xs"
  by (auto simp: js_slice_def Let_def min_def)

lemma js_slice_drop: "0 \<le> k \<Longrightarrow> js_slice xs k (int (length xs)) = drop (nat k) xs"
  by (auto simp: js_slice_def Let_def min_def)

lemma indent_of_eq:
  "indent_of l = Inr (replicate (length (takeWhile isWhiteSpace l)) SPACE)"
proof -
  have "length l = length (takeWhile isWhiteSpace l) + length (dropWhile isWhiteSpace l)"
    by (metis length_append takeWhile_dropWhile_id)
  then show ?thesis
    by (simp add: indent_of_def trimStart_def Let_def)
qed

lemmas utf8_eval = utf8_decode_def utf8_step_def lead_byte_def utf8_start_def code_units_def
  utf8_bytes_def is_high_surrogate_def is_low_surrogate_def REPLACEMENT_def

lemma readFile_Inr: "readFile fs p = Inr raw \<longleftrightarrow> (\<exists>bytes. files fs p = Some bytes \<and> raw = utf8_decode bytes)"
  by (auto simp: readFile_def split: option.splits)

lemma modify_success:
  assumes "readFile fs p = Inr raw" and "p \<notin> readonly fs"
    and "1 \<le> s" and "s \<le> e" and "e \<le> int (length (split_lines raw))"
  shows "modifyFileWithPatch fs p s e patch =
    (Inr (), fs\<lparr>files := (files fs)(p \<mapsto> utf8_encode (
       js_join [LF]
         (take (nat (s - 1)) (split_lines raw)
          @ [js_join [LF] (map ((@) (replicate (length (takeWhile isWhiteSpace
                 (split_lines raw ! nat (s - 1)))) SPACE)) (split_lines patch))]
          @ drop (nat e) (split_lines raw))))\<rparr>)"
  using assms
  by (simp add: modifyFileWithPatch_def writeFile_def Let_def indent_of_eq
      js_slice_take js_slice_drop)

lemma js_join_append:
  "xs \<noteq> [] \<Longrightarrow> ys \<noteq> [] \<Longrightarrow> js_join sep (xs @ ys) = js_join sep xs @ sep @ js_join sep ys"
  by (induction sep xs rule: js_join.induct) (auto simp: js_join_Cons)

lemma js_join_flatten:
  "bs \<noteq> [] \<Longrightarrow> js_join sep (as @ [js_join sep bs] @ cs) = js_join sep (as @ bs @ cs)"
  by (cases "as = []"; cases "cs = []") (simp_all add: js_join_append js_join_Cons)

lemma starts_with_single: "starts_with cs [a] \<longleftrightarrow> (\<exists>t. cs = a # t)"
  by (cases cs) auto

lemma js_includes_crlf_Cons:
  "js_includes (c # cs) [CR, LF] \<longleftrightarrow> (c = CR \<and> (\<exists>t. cs = LF # t)) \<or> js_includes cs [CR, LF]"
  by (simp add: starts_with_single)

lemma js_includes_crlf_Nil: "\<not> js_includes [] [CR, LF]"
  by simp

lemma no_LF_no_crlf: "LF \<notin> set x \<Longrightarrow> \<not> js_includes x [CR, LF]"
  by (induction x) (auto simp: js_includes_crlf_Cons simp del: js_includes.simps(2))

lemma replicate_spaces_id: "\<forall>c\<in>set W. c = SPACE \<Longrightarrow> replicate (length W) SPACE = W"
  by (induction W) auto

lemma take_nth_drop_id: "k < length xs \<Longrightarrow> take k xs @ [xs ! k] @ drop (Suc k) xs = xs"
  by (simp add: id_take_nth_drop[symmetric])

lemma replicate_numeral: "replicate (numeral k) x = x # replicate (pred_numeral k) x"
  by (simp add: numeral_eq_Suc)

section \<open>Properties of the UTF-8 encoding\<close>

lemma unat_byte: "n < 256 \<Longrightarrow> unat (of_nat n :: byte) = n"
  by (simp add: unat_of_nat)

lemma unat_code_unit: "n < 65536 \<Longrightarrow> unat (of_nat n :: code_unit) = n"
  by (simp add: unat_of_nat)

lemma unat_code_unit_less: "unat (c :: code_unit) < 65536"
  using unsigned_less[of c, where ?'a = nat] by simp

lemma byte_ge: "0x80 \<le> n \<Longrightarrow> n < 256 \<Longrightarrow> 0x80 \<le> unat (of_nat n :: byte)"
  by (simp only: unat_byte)

lemma utf8_bytes_high:
  assumes "0x80 \<le> cp" and "cp < 0x110000" and "b \<in> set (utf8_bytes cp)"
  shows "0x80 \<le> unat b"
proof -
  have "cp div 0x40 < 0x20" if "cp < 0x800"
    using that by simp
  moreover have "cp div 0x1000 < 0x10" if "cp < 0x10000"
    using that by simp
  moreover have "cp div 0x40000 < 0x08"
    using assms(2) by simp
  moreover have "cp mod 0x40 < 0x40" "cp div 0x40 mod 0x40 < 0x40" "cp div 0x1000 mod 0x40 < 0x40"
    by simp_all
  ultimately show ?thesis
    using assms
    by (auto simp: utf8_bytes_def split: if_splits
        simp del: of_nat_add of_nat_numeral of_nat_mult intro!: byte_ge)
qed

lemma utf8_bytes_not_Nil: "utf8_bytes cp \<noteq> []"
  by (simp add: utf8_bytes_def)

lemma js_includes_pair_Cons:
  "js_includes (x # xs) [a, b] \<longleftrightarrow> (x = a \<and> (\<exists>t. xs = b # t)) \<or> js_includes xs [a, b]"
  by (cases xs) auto

lemma js_includes_pair_skip:
  "\<forall>y \<in> set ch. y \<noteq> a \<Longrightarrow> js_includes (ch @ r) [a, b] \<longleftrightarrow> js_includes r [a, b]"
  by (induction ch) (simp_all add: js_includes_pair_Cons del: js_includes.simps(2))

lemma utf8_bytes_ascii_unat: "cp < 0x80 \<Longrightarrow> \<exists>b. utf8_bytes cp = [b] \<and> unat b = cp"
  by (simp add: utf8_bytes_def unat_byte)

lemma surrogate_pair_bounds:
  assumes "is_high_surrogate c" and "is_low_surrogate d"
  shows "0x80 \<le> 0x10000 + (unat c - 0xD800) * 0x400 + (unat d - 0xDC00)"
    and "0x10000 + (unat c - 0xD800) * 0x400 + (unat d - 0xDC00) < 0x110000"
  using assms unfolding is_high_surrogate_def is_low_surrogate_def by arith+

lemma utf8_encode_Cons:
  "\<exists>ch rest. utf8_encode (c # cs) = ch @ utf8_encode rest \<and> ch \<noteq> []
     \<and> ((unat c < 0x80 \<and> rest = cs \<and> (\<exists>b. ch = [b] \<and> unat b = unat c))
        \<or> (0x80 \<le> unat c \<and> (\<forall>b \<in> set ch. 0x80 \<le> unat b)
            \<and> (rest = cs \<or> (\<exists>d. cs = d # rest \<and> 0x80 \<le> unat d))))"
proof -
  let ?sur = "is_high_surrogate c \<or> is_low_surrogate c"
  have sur: "0x80 \<le> unat c" if ?sur
    using that by (auto simp: is_high_surrogate_def is_low_surrogate_def)
  have repl: "\<forall>b \<in> set (utf8_bytes 0xFFFD). 0x80 \<le> unat b"
    by (auto dest: utf8_bytes_high[rotated 2])
  have enc_lone: "utf8_encode (c # cs) = utf8_bytes 0xFFFD @ utf8_encode cs"
    if "?sur" and "\<not> (\<exists>d t. cs = d # t \<and> is_high_surrogate c \<and> is_low_surrogate d)"
    using that by (cases cs) auto
  have enc_plain: "utf8_encode (c # cs) = utf8_bytes (unat c) @ utf8_encode cs" if "\<not> ?sur"
    using that by (cases cs) auto
  consider (pair) d t where "cs = d # t" "is_high_surrogate c" "is_low_surrogate d"
    | (lone) "?sur" "utf8_encode (c # cs) = utf8_bytes 0xFFFD @ utf8_encode cs"
    | (plain) "\<not> ?sur" "utf8_encode (c # cs) = utf8_bytes (unat c) @ utf8_encode cs"
    using enc_lone enc_plain by blast
  then show ?thesis
  proof cases
    case pair
    let ?cp = "0x10000 + (unat c - 0xD800) * 0x400 + (unat d - 0xDC00)"
    have "\<forall>b \<in> set (utf8_bytes ?cp). 0x80 \<le> unat b"
      using surrogate_pair_bounds[OF pair(2,3)] by (auto dest: utf8_bytes_high[rotated 2])
    moreover have "0x80 \<le> unat d"
      using pair(3) by (simp add: is_low_surrogate_def)
    moreover have "utf8_encode (c # cs) = utf8_bytes ?cp @ utf8_encode t"
      using pair by simp
    ultimately show ?thesis
      using pair(1,2) sur utf8_bytes_not_Nil by blast
  next
    case lone
    with sur repl utf8_bytes_not_Nil show ?thesis
      by blast
  next
    case plain
    show ?thesis
    proof (cases "unat c < 0x80")
      case True
      with plain(2) utf8_bytes_ascii_unat[of "unat c"] show ?thesis
        by auto
    next
      case False
      then have hi: "0x80 \<le> unat c"
        by simp
      have "\<forall>b \<in> set (utf8_bytes (unat c)). 0x80 \<le> unat b"
        using hi unat_code_unit_less[of c] by (auto dest: utf8_bytes_high[rotated 2])
      with plain(2) hi utf8_bytes_not_Nil show ?thesis
        by blast
    qed
  qed
qed

lemma byte_eq_unat: "(b :: byte) = 0x0A \<longleftrightarrow> unat b = 10" "(b :: byte) = 0x0D \<longleftrightarrow> unat b = 13"
  by (simp_all add: word_unat_eq_iff)

lemma code_unit_eq_unat: "c = LF \<longleftrightarrow> unat c = 10" "c = CR \<longleftrightarrow> unat c = 13"
  by (simp_all add: word_unat_eq_iff LF_def CR_def)

lemma utf8_encode_starts_LF: "(\<exists>t. utf8_encode s = 0x0A # t) \<longleftrightarrow> (\<exists>t. s = LF # t)"
proof (cases s)
  case Nil
  then show ?thesis by simp
next
  case (Cons c cs)
  obtain ch rest where ch: "utf8_encode (c # cs) = ch @ utf8_encode rest" "ch \<noteq> []"
      "(unat c < 0x80 \<and> (\<exists>b. ch = [b] \<and> unat b = unat c))
       \<or> (0x80 \<le> unat c \<and> (\<forall>b \<in> set ch. 0x80 \<le> unat b))"
    using utf8_encode_Cons[of c cs] by blast
  from ch(2) obtain b bs where b: "ch = b # bs"
    by (cases ch) auto
  with ch(3) have "unat b = 10 \<longleftrightarrow> unat c = 10"
    by auto
  with Cons ch(1) b show ?thesis
    by (simp add: byte_eq_unat code_unit_eq_unat)
qed

lemma utf8_encode_crlf:
  "js_includes (utf8_encode s) [0x0D, 0x0A] \<longleftrightarrow> js_includes s [CR, LF]"
proof (induction s rule: length_induct)
  case (1 s)
  show ?case
  proof (cases s)
    case Nil
    then show ?thesis by simp
  next
    case (Cons c cs)
    obtain ch rest where ch: "utf8_encode (c # cs) = ch @ utf8_encode rest"
      and kinds: "(unat c < 0x80 \<and> rest = cs \<and> (\<exists>b. ch = [b] \<and> unat b = unat c))
        \<or> (0x80 \<le> unat c \<and> (\<forall>b \<in> set ch. 0x80 \<le> unat b)
            \<and> (rest = cs \<or> (\<exists>d. cs = d # rest \<and> 0x80 \<le> unat d)))"
      using utf8_encode_Cons[of c cs] by blast
    from kinds show ?thesis
    proof
      assume ascii: "unat c < 0x80 \<and> rest = cs \<and> (\<exists>b. ch = [b] \<and> unat b = unat c)"
      then obtain b where b: "ch = [b]" "unat b = unat c" "rest = cs"
        by blast
      have ih: "js_includes (utf8_encode cs) [0x0D, 0x0A] \<longleftrightarrow> js_includes cs [CR, LF]"
        using 1 Cons by simp
      have "js_includes (utf8_encode s) [0x0D, 0x0A]
          \<longleftrightarrow> (b = 0x0D \<and> (\<exists>t. utf8_encode cs = 0x0A # t)) \<or> js_includes (utf8_encode cs) [0x0D, 0x0A]"
        using Cons ch b by (simp add: js_includes_pair_Cons del: js_includes.simps(2))
      also have "\<dots> \<longleftrightarrow> (c = CR \<and> (\<exists>t. cs = LF # t)) \<or> js_includes cs [CR, LF]"
        using b(2) by (simp add: ih utf8_encode_starts_LF byte_eq_unat code_unit_eq_unat)
      also have "\<dots> \<longleftrightarrow> js_includes s [CR, LF]"
        using Cons by (simp add: js_includes_pair_Cons del: js_includes.simps(2))
      finally show ?thesis .
    next
      assume high: "0x80 \<le> unat c \<and> (\<forall>b \<in> set ch. 0x80 \<le> unat b)
            \<and> (rest = cs \<or> (\<exists>d. cs = d # rest \<and> 0x80 \<le> unat d))"
      then have "\<forall>y \<in> set ch. y \<noteq> 0x0D"
        by (auto simp: byte_eq_unat)
      then have "js_includes (utf8_encode s) [0x0D, 0x0A] \<longleftrightarrow> js_includes (utf8_encode rest) [0x0D, 0x0A]"
        using Cons ch by (simp add: js_includes_pair_skip del: js_includes.simps(2))
      also have "\<dots> \<longleftrightarrow> js_includes rest [CR, LF]"
        using 1 Cons high by auto
      also have "\<dots> \<longleftrightarrow> js_includes cs [CR, LF]"
        using high by (auto simp: js_includes_pair_Cons code_unit_eq_unat simp del: js_includes.simps(2))
      also have "\<dots> \<longleftrightarrow> js_includes s [CR, LF]"
        using Cons high by (auto simp: js_includes_pair_Cons code_unit_eq_unat simp del: js_includes.simps(2))
      finally show ?thesis .
    qed
  qed
qed

lemma run_lead:
  "utf8_run utf8_start (b # r) = (case lead_byte (unat b) of (out, st) \<Rightarrow> out @ utf8_run st r)"
  by (simp add: utf8_step_def utf8_start_def)

lemma run_cont:
  "0 < needed \<Longrightarrow> lo \<le> unat b \<Longrightarrow> unat b \<le> hi \<Longrightarrow>
     utf8_run (needed, cp, lo, hi) (b # r) =
       (if needed = 1 then code_units (cp * 0x40 + unat b mod 0x40) @ utf8_run utf8_start r
        else utf8_run (needed - 1, cp * 0x40 + unat b mod 0x40, 0x80, 0xBF) r)"
  by (simp add: utf8_step_def Let_def)

lemma mod_offset: "k < m \<Longrightarrow> (q * m + k) mod m = (k::nat)"
  by simp

lemma cont_byte:
  assumes "j < 0x40"
  shows "0x80 + j < (256::nat)" "0x80 \<le> 0x80 + j" "0x80 + j \<le> (0xBF::nat)" "(0x80 + j) mod 0x40 = j"
  using assms mod_offset[of j "0x40" 2] by simp_all

lemma bytes2_arith:
  assumes "0x80 \<le> cp" and "cp < 0x800"
  shows "0xC0 + cp div 0x40 < (256::nat)" "0xC2 \<le> 0xC0 + cp div 0x40" "0xC0 + cp div 0x40 \<le> (0xDF::nat)"
    "(0xC0 + cp div 0x40) mod 0x20 = cp div 0x40"
proof -
  have k: "cp div 0x40 < 0x20" "2 \<le> cp div 0x40"
    using assms by simp_all
  then show "0xC0 + cp div 0x40 < (256::nat)" "0xC2 \<le> 0xC0 + cp div 0x40"
    "0xC0 + cp div 0x40 \<le> (0xDF::nat)"
    by simp_all
  show "(0xC0 + cp div 0x40) mod 0x20 = cp div 0x40"
    using k(1) mod_offset[of "cp div 0x40" "0x20" 6] by simp
qed

lemma utf8_bytes2:
  assumes "0x80 \<le> cp" and "cp < 0x800"
  shows "\<exists>b1 b2. utf8_bytes cp = [b1, b2] \<and> unat b1 = 0xC0 + cp div 0x40
    \<and> unat b2 = 0x80 + cp mod 0x40"
  using assms bytes2_arith(1)[OF assms] cont_byte(1)[of "cp mod 0x40"]
  by (simp add: utf8_bytes_def unat_byte del: of_nat_add of_nat_numeral of_nat_mult)

lemma run_bytes1:
  assumes "cp < 0x80"
  shows "utf8_run utf8_start (utf8_bytes cp @ r) = code_units cp @ utf8_run utf8_start r"
proof -
  obtain b1 where b: "utf8_bytes cp = [b1]" "unat b1 = cp"
    using utf8_bytes_ascii_unat[OF assms] by blast
  have "lead_byte cp = (code_units cp, utf8_start)"
    using assms by (simp add: lead_byte_def code_units_def)
  then show ?thesis
    by (simp add: b run_lead del: utf8_run.simps)
qed

lemma run_bytes2:
  assumes "0x80 \<le> cp" and "cp < 0x800"
  shows "utf8_run utf8_start (utf8_bytes cp @ r) = code_units cp @ utf8_run utf8_start r"
proof -
  obtain b1 b2 where b: "utf8_bytes cp = [b1, b2]" "unat b1 = 0xC0 + cp div 0x40"
      "unat b2 = 0x80 + cp mod 0x40"
    using utf8_bytes2[OF assms] by blast
  note a1 = bytes2_arith[OF assms]
  note a2 = cont_byte[of "cp mod 0x40"]
  have lead: "lead_byte (unat b1) = ([], (1, cp div 0x40, 0x80, 0xBF))"
    using a1 by (simp add: lead_byte_def b(2))
  have "utf8_run utf8_start (b1 # b2 # r) = utf8_run (1, cp div 0x40, 0x80, 0xBF) (b2 # r)"
    by (simp add: run_lead lead del: utf8_run.simps)
  also have "\<dots> = code_units (cp div 0x40 * 0x40 + unat b2 mod 0x40) @ utf8_run utf8_start r"
    using a2 by (subst run_cont) (simp_all add: b(3))
  also have "cp div 0x40 * 0x40 + unat b2 mod 0x40 = cp"
    using a2(4) by (simp add: b(3))
  finally show ?thesis
    by (simp only: b(1) append_Cons append_Nil)
qed

lemma bytes3_arith:
  assumes "0x800 \<le> cp" and "cp < 0x10000" and "\<not> (0xD800 \<le> cp \<and> cp \<le> 0xDFFF)"
  shows "0xE0 + cp div 0x1000 < (256::nat)" "0xE0 \<le> 0xE0 + cp div 0x1000"
    "0xE0 + cp div 0x1000 \<le> (0xEF::nat)"
    "(0xE0 + cp div 0x1000) mod 0x10 = cp div 0x1000"
    "0xE0 + cp div 0x1000 = 0xE0 \<Longrightarrow> 0xA0 \<le> 0x80 + cp div 0x40 mod 0x40"
    "0xE0 + cp div 0x1000 = 0xED \<Longrightarrow> 0x80 + cp div 0x40 mod 0x40 \<le> (0x9F::nat)"
    "cp div 0x1000 * 0x40 + cp div 0x40 mod 0x40 = cp div 0x40"
proof -
  have k: "cp div 0x1000 < 0x10"
    using assms by simp
  then show "0xE0 + cp div 0x1000 < (256::nat)" "0xE0 \<le> 0xE0 + cp div 0x1000"
    "0xE0 + cp div 0x1000 \<le> (0xEF::nat)"
    by simp_all
  show "(0xE0 + cp div 0x1000) mod 0x10 = cp div 0x1000"
    using k mod_offset[of "cp div 0x1000" "0x10" 14] by simp
  have split: "cp div 0x1000 = cp div 0x40 div 0x40"
    by (simp add: div_mult2_eq)
  show mid: "cp div 0x1000 * 0x40 + cp div 0x40 mod 0x40 = cp div 0x40"
    unfolding split by simp
  show "0xA0 \<le> 0x80 + cp div 0x40 mod 0x40" if "0xE0 + cp div 0x1000 = 0xE0"
  proof -
    from that have "cp div 0x1000 = 0"
      by simp
    with mid have "cp div 0x40 mod 0x40 = cp div 0x40"
      by simp
    moreover have "0x20 \<le> cp div 0x40"
      using assms(1) by simp
    ultimately show ?thesis
      by simp
  qed
  show "0x80 + cp div 0x40 mod 0x40 \<le> (0x9F::nat)" if "0xE0 + cp div 0x1000 = 0xED"
  proof -
    from that have "cp div 0x1000 = 0xD"
      by simp
    with mid have "0xD * 0x40 + cp div 0x40 mod 0x40 = cp div 0x40"
      by simp
    moreover have "cp < 0xD800"
      using assms(3) \<open>cp div 0x1000 = 0xD\<close> by (cases "cp < 0xD800") simp_all
    then have "cp div 0x40 < 0x360"
      by simp
    ultimately show ?thesis
      by simp
  qed
qed

lemma utf8_bytes3:
  assumes "0x800 \<le> cp" and "cp < 0x10000" and "\<not> (0xD800 \<le> cp \<and> cp \<le> 0xDFFF)"
  shows "\<exists>b1 b2 b3. utf8_bytes cp = [b1, b2, b3] \<and> unat b1 = 0xE0 + cp div 0x1000
    \<and> unat b2 = 0x80 + cp div 0x40 mod 0x40 \<and> unat b3 = 0x80 + cp mod 0x40"
  using assms bytes3_arith(1)[OF assms] cont_byte(1)[of "cp mod 0x40"]
    cont_byte(1)[of "cp div 0x40 mod 0x40"]
  by (simp add: utf8_bytes_def unat_byte del: of_nat_add of_nat_numeral of_nat_mult)

lemma run_bytes3:
  assumes "0x800 \<le> cp" and "cp < 0x10000" and "\<not> (0xD800 \<le> cp \<and> cp \<le> 0xDFFF)"
  shows "utf8_run utf8_start (utf8_bytes cp @ r) = code_units cp @ utf8_run utf8_start r"
proof -
  obtain b1 b2 b3 where b: "utf8_bytes cp = [b1, b2, b3]" "unat b1 = 0xE0 + cp div 0x1000"
      "unat b2 = 0x80 + cp div 0x40 mod 0x40" "unat b3 = 0x80 + cp mod 0x40"
    using utf8_bytes3[OF assms] by blast
  note a1 = bytes3_arith[OF assms]
  note a2 = cont_byte[of "cp div 0x40 mod 0x40"]
  note a3 = cont_byte[of "cp mod 0x40"]
  let ?lo = "if unat b1 = 0xE0 then 0xA0 else (0x80::nat)"
  let ?hi = "if unat b1 = 0xED then 0x9F else (0xBF::nat)"
  have lead: "lead_byte (unat b1) = ([], (2, cp div 0x1000, ?lo, ?hi))"
    using a1(1-4) by (simp add: lead_byte_def b(2))
  have bounds: "?lo \<le> unat b2" "unat b2 \<le> ?hi"
    using a1(5,6) a2 by (simp_all add: b(2,3))
  have "utf8_run utf8_start (b1 # b2 # b3 # r) = utf8_run (2, cp div 0x1000, ?lo, ?hi) (b2 # b3 # r)"
    by (simp only: run_lead lead prod.case append_Nil)
  also have "\<dots> = utf8_run (1, cp div 0x1000 * 0x40 + unat b2 mod 0x40, 0x80, 0xBF) (b3 # r)"
    using bounds by (subst run_cont) simp_all
  also have "cp div 0x1000 * 0x40 + unat b2 mod 0x40 = cp div 0x40"
    using a2(4) a1(7) by (simp add: b(3))
  also have "utf8_run (1, cp div 0x40, 0x80, 0xBF) (b3 # r)
      = code_units (cp div 0x40 * 0x40 + unat b3 mod 0x40) @ utf8_run utf8_start r"
    using a3 by (subst run_cont) (simp_all add: b(4))
  also have "cp div 0x40 * 0x40 + unat b3 mod 0x40 = cp"
    using a3(4) by (simp add: b(4))
  finally show ?thesis
    by (simp only: b(1) append_Cons append_Nil)
qed

lemma bytes4_arith:
  assumes "0x10000 \<le> cp" and "cp < 0x110000"
  shows "0xF0 + cp div 0x40000 < (256::nat)" "0xF0 \<le> 0xF0 + cp div 0x40000"
    "0xF0 + cp div 0x40000 \<le> (0xF4::nat)"
    "(0xF0 + cp div 0x40000) mod 0x08 = cp div 0x40000"
    "0xF0 + cp div 0x40000 = 0xF0 \<Longrightarrow> 0x90 \<le> 0x80 + cp div 0x1000 mod 0x40"
    "0xF0 + cp div 0x40000 = 0xF4 \<Longrightarrow> 0x80 + cp div 0x1000 mod 0x40 \<le> (0x8F::nat)"
    "cp div 0x40000 * 0x40 + cp div 0x1000 mod 0x40 = cp div 0x1000"
    "cp div 0x1000 * 0x40 + cp div 0x40 mod 0x40 = cp div 0x40"
proof -
  have "cp < 0x140000"
    using assms(2) by simp
  then have k: "cp div 0x40000 < 5"
    by simp
  then show "0xF0 + cp div 0x40000 < (256::nat)" "0xF0 \<le> 0xF0 + cp div 0x40000"
    "0xF0 + cp div 0x40000 \<le> (0xF4::nat)"
    by simp_all
  show "(0xF0 + cp div 0x40000) mod 0x08 = cp div 0x40000"
    using k mod_offset[of "cp div 0x40000" "0x08" 30] by simp
  have split: "cp div 0x40000 = cp div 0x1000 div 0x40" "cp div 0x1000 = cp div 0x40 div 0x40"
    by (simp_all add: div_mult2_eq)
  show mid: "cp div 0x40000 * 0x40 + cp div 0x1000 mod 0x40 = cp div 0x1000"
    unfolding split(1) by simp
  show "cp div 0x1000 * 0x40 + cp div 0x40 mod 0x40 = cp div 0x40"
    unfolding split(2) by simp
  show "0x90 \<le> 0x80 + cp div 0x1000 mod 0x40" if "0xF0 + cp div 0x40000 = 0xF0"
  proof -
    from that have "cp div 0x40000 = 0"
      by simp
    with mid have "cp div 0x1000 mod 0x40 = cp div 0x1000"
      by simp
    moreover have "0x10 \<le> cp div 0x1000"
      using assms(1) by simp
    ultimately show ?thesis
      by simp
  qed
  show "0x80 + cp div 0x1000 mod 0x40 \<le> (0x8F::nat)" if "0xF0 + cp div 0x40000 = 0xF4"
  proof -
    from that have "cp div 0x40000 = 4"
      by simp
    with mid have "4 * 0x40 + cp div 0x1000 mod 0x40 = cp div 0x1000"
      by simp
    moreover have "cp div 0x1000 < 0x110"
      using assms(2) by simp
    ultimately show ?thesis
      by simp
  qed
qed

lemma utf8_bytes4:
  assumes "0x10000 \<le> cp" and "cp < 0x110000"
  shows "\<exists>b1 b2 b3 b4. utf8_bytes cp = [b1, b2, b3, b4] \<and> unat b1 = 0xF0 + cp div 0x40000
    \<and> unat b2 = 0x80 + cp div 0x1000 mod 0x40 \<and> unat b3 = 0x80 + cp div 0x40 mod 0x40
    \<and> unat b4 = 0x80 + cp mod 0x40"
  using assms bytes4_arith(1)[OF assms] cont_byte(1)[of "cp mod 0x40"]
    cont_byte(1)[of "cp div 0x40 mod 0x40"] cont_byte(1)[of "cp div 0x1000 mod 0x40"]
  by (simp add: utf8_bytes_def unat_byte del: of_nat_add of_nat_numeral of_nat_mult)

lemma run_bytes4:
  assumes "0x10000 \<le> cp" and "cp < 0x110000"
  shows "utf8_run utf8_start (utf8_bytes cp @ r) = code_units cp @ utf8_run utf8_start r"
proof -
  obtain b1 b2 b3 b4 where b: "utf8_bytes cp = [b1, b2, b3, b4]"
      "unat b1 = 0xF0 + cp div 0x40000" "unat b2 = 0x80 + cp div 0x1000 mod 0x40"
      "unat b3 = 0x80 + cp div 0x40 mod 0x40" "unat b4 = 0x80 + cp mod 0x40"
    using utf8_bytes4[OF assms] by blast
  note a1 = bytes4_arith[OF assms]
  note a2 = cont_byte[of "cp div 0x1000 mod 0x40"]
  note a3 = cont_byte[of "cp div 0x40 mod 0x40"]
  note a4 = cont_byte[of "cp mod 0x40"]
  let ?lo = "if unat b1 = 0xF0 then 0x90 else (0x80::nat)"
  let ?hi = "if unat b1 = 0xF4 then 0x8F else (0xBF::nat)"
  have lead: "lead_byte (unat b1) = ([], (3, cp div 0x40000, ?lo, ?hi))"
    using a1(1-4) by (simp add: lead_byte_def b(2))
  have bounds: "?lo \<le> unat b2" "unat b2 \<le> ?hi"
    using a1(5,6) a2 by (simp_all add: b(2,3))
  have "utf8_run utf8_start (b1 # b2 # b3 # b4 # r)
      = utf8_run (3, cp div 0x40000, ?lo, ?hi) (b2 # b3 # b4 # r)"
    by (simp only: run_lead lead prod.case append_Nil)
  also have "\<dots> = utf8_run (2, cp div 0x40000 * 0x40 + unat b2 mod 0x40, 0x80, 0xBF) (b3 # b4 # r)"
    using bounds by (subst run_cont) simp_all
  also have "cp div 0x40000 * 0x40 + unat b2 mod 0x40 = cp div 0x1000"
    using a2(4) a1(7) by (simp add: b(3))
  also have "utf8_run (2, cp div 0x1000, 0x80, 0xBF) (b3 # b4 # r)
      = utf8_run (1, cp div 0x1000 * 0x40 + unat b3 mod 0x40, 0x80, 0xBF) (b4 # r)"
    using a3 by (subst run_cont) (simp_all add: b(4))
  also have "cp div 0x1000 * 0x40 + unat b3 mod 0x40 = cp div 0x40"
    using a3(4) a1(8) by (simp add: b(4))
  also have "utf8_run (1, cp div 0x40, 0x80, 0xBF) (b4 # r)
      = code_units (cp div 0x40 * 0x40 + unat b4 mod 0x40) @ utf8_run utf8_start r"
    using a4 by (subst run_cont) (simp_all add: b(5))
  also have "cp div 0x40 * 0x40 + unat b4 mod 0x40 = cp"
    using a4(4) by (simp add: b(5))
  finally show ?thesis
    by (simp only: b(1) append_Cons append_Nil)
qed

lemma run_bytes:
  assumes "cp < 0x110000" and "\<not> (0xD800 \<le> cp \<and> cp \<le> 0xDFFF)"
  shows "utf8_run utf8_start (utf8_bytes cp @ r) = code_units cp @ utf8_run utf8_start r"
proof -
  consider "cp < 0x80" | "0x80 \<le> cp" "cp < 0x800" | "0x800 \<le> cp" "cp < 0x10000" | "0x10000 \<le> cp"
    by linarith
  then show ?thesis
    using assms by cases (blast intro: run_bytes1 run_bytes2 run_bytes3 run_bytes4)+
qed

lemma code_units_plain: "code_units (unat (c :: code_unit)) = [c]"
  using unat_code_unit_less[of c] by (simp add: code_units_def)

lemma code_units_pair:
  assumes "is_high_surrogate c" and "is_low_surrogate d"
  shows "code_units (0x10000 + (unat c - 0xD800) * 0x400 + (unat d - 0xDC00)) = [c, d]"
proof -
  let ?h = "unat c - 0xD800" and ?l = "unat d - 0xDC00"
  have l: "?l < 0x400" and h: "0xD800 + ?h = unat c" and l': "0xDC00 + ?l = unat d"
    using assms unfolding is_high_surrogate_def is_low_surrogate_def by arith+
  have "(?h * 0x400 + ?l) div 0x400 = ?h" "(?h * 0x400 + ?l) mod 0x400 = ?l"
    using l by simp_all
  moreover have "0x10000 + ?h * 0x400 + ?l - 0x10000 = ?h * 0x400 + ?l"
    by simp
  ultimately have "code_units (0x10000 + ?h * 0x400 + ?l)
      = [of_nat (0xD800 + ?h), of_nat (0xDC00 + ?l)]"
    by (simp add: code_units_def del: of_nat_add of_nat_numeral of_nat_mult)
  then show ?thesis
    by (simp only: h l' of_nat_unat unsigned_eq_0_iff) simp
qed

lemma not_surrogate:
  "\<not> is_high_surrogate c \<Longrightarrow> \<not> is_low_surrogate c \<Longrightarrow> \<not> (0xD800 \<le> unat c \<and> unat c \<le> 0xDFFF)"
  unfolding is_high_surrogate_def is_low_surrogate_def by arith

lemma run_plain:
  assumes "\<not> is_high_surrogate c" and "\<not> is_low_surrogate c"
  shows "utf8_run utf8_start (utf8_bytes (unat c) @ r) = c # utf8_run utf8_start r"
proof -
  have "unat c < 0x110000"
    using unat_code_unit_less[of c] by simp
  then show ?thesis
    using run_bytes[OF _ not_surrogate[OF assms], of r] by (simp add: code_units_plain)
qed

lemma run_pair:
  assumes "is_high_surrogate c" and "is_low_surrogate d"
  shows "utf8_run utf8_start
      (utf8_bytes (0x10000 + (unat c - 0xD800) * 0x400 + (unat d - 0xDC00)) @ r)
    = c # d # utf8_run utf8_start r"
proof -
  let ?cp = "0x10000 + (unat c - 0xD800) * 0x400 + (unat d - 0xDC00)"
  have "0x10000 \<le> ?cp"
    by simp
  then show ?thesis
    using run_bytes4[OF _ surrogate_pair_bounds(2)[OF assms], of r] code_units_pair[OF assms]
    by simp
qed

lemma utf8_decode_encode: "isWellFormed s \<Longrightarrow> utf8_decode (utf8_encode s) = s"
  unfolding utf8_decode_def
proof (induction s rule: utf8_encode.induct)
  case 1
  then show ?case by (simp add: utf8_start_def)
next
  case (2 c)
  then show ?case
    using run_plain[of c "[]"] by (simp add: utf8_start_def)
next
  case (3 c d cs)
  show ?case
  proof (cases "is_high_surrogate c \<and> is_low_surrogate d")
    case True
    with 3 show ?thesis
      using run_pair[of c d "utf8_encode cs"] by simp
  next
    case False
    with 3 show ?thesis
      using run_plain[of c "utf8_encode (d # cs)"] by simp
  qed
qed

lemma crlf_append_LF:
  "LF \<notin> set x \<Longrightarrow>
     js_includes (x @ LF # r) [CR, LF] \<longleftrightarrow> (x \<noteq> [] \<and> last x = CR) \<or> js_includes r [CR, LF]"
proof (induction x)
  case Nil
  then show ?case
    by (simp add: js_includes_pair_Cons CR_neq_LF del: js_includes.simps(2))
next
  case (Cons c cs)
  then have "(\<exists>t. cs @ LF # r = LF # t) \<longleftrightarrow> cs = []"
    by (cases cs) auto
  with Cons show ?case
    by (auto simp: js_includes_pair_Cons simp del: js_includes.simps(2))
qed

lemma crlf_join_iff:
  "\<forall>x \<in> set xs. LF \<notin> set x \<Longrightarrow>
     js_includes (js_join [LF] xs) [CR, LF] \<longleftrightarrow> (\<exists>x \<in> set (butlast xs). x \<noteq> [] \<and> last x = CR)"
proof (induction "[LF]" xs rule: js_join.induct)
  case 1
  then show ?case by simp
next
  case (2 x)
  then show ?case by (simp add: no_LF_no_crlf del: js_includes.simps(2))
next
  case (3 x y ys)
  then have "js_includes (js_join [LF] (x # y # ys)) [CR, LF]
      \<longleftrightarrow> (x \<noteq> [] \<and> last x = CR) \<or> js_includes (js_join [LF] (y # ys)) [CR, LF]"
    using crlf_append_LF[of x "js_join [LF] (y # ys)"] by simp
  with 3 show ?case
    by auto
qed

section \<open>Range validation\<close>

text \<open>
  C1. Let \<open>n\<close> be the number of lines that splitting the content of the file yields. If
  \<open>startLine \<le> 0\<close>, or \<open>endLine > n\<close>, or \<open>startLine > endLine\<close>, the call fails with
  the invalid-range error and the file system is left exactly as it was. A content that
  ends in a line feed counts one more line, the empty one after that line feed.
\<close>

theorem invalid_range_rejected:
  assumes "readFile fs p = Inr raw"
    and "s \<le> 0 \<or> e > int (length (split_lines raw)) \<or> s > e"
  shows "modifyFileWithPatch fs p s e patch = (Inl InvalidRange, fs)
    \<and> length (split_lines (raw @ [LF])) = Suc (length (split_lines raw))
    \<and> last (split_lines (raw @ [LF])) = []"
proof -
  have "modifyFileWithPatch fs p s e patch = (Inl InvalidRange, fs)"
    using assms by (auto simp: modifyFileWithPatch_def Let_def)
  then show ?thesis
    by (simp add: split_lines_snoc_LF)
qed

theorem invalid_range_rejected_witness:
  "readFile \<lparr>files = [ascii ''f'' \<mapsto> ([0x61, 0x0A] :: byte list)], readonly = {}\<rparr> (ascii ''f'') = Inr ([0x61, LF] :: jsstring)
   \<and> ((3::int) \<le> 0 \<or> (3::int) > int (length (split_lines ([0x61, LF] :: jsstring))) \<or> (3::int) > 3)
   \<and> modifyFileWithPatch \<lparr>files = [ascii ''f'' \<mapsto> ([0x61, 0x0A] :: byte list)], readonly = {}\<rparr> (ascii ''f'') 3 3 [0x78] = (Inl InvalidRange, \<lparr>files = [ascii ''f'' \<mapsto> ([0x61, 0x0A] :: byte list)], readonly = {}\<rparr>)
   \<and> length (split_lines ([0x61, LF] :: jsstring)) = 2"
  using invalid_range_rejected [of "\<lparr>files = [ascii ''f'' \<mapsto> ([0x61, 0x0A] :: byte list)], readonly = {}\<rparr>" "ascii ''f''" "([0x61, LF] :: jsstring)" 3 3 "[0x78]"]
  by (simp add: readFile_def utf8_eval LF_def)

section \<open>The splice\<close>

text \<open>
  C2. For a file that splits into the lines \<open>L1..Ln\<close> and a range with
  \<open>1 \<le> s \<le> e \<le> n\<close>, the call writes back the lines \<open>L1..L(s-1)\<close>, then the
  re-indented patch block \<open>B\<close> as one element, then the lines \<open>L(e+1)..Ln\<close>, joined
  with a single line feed: the bytes of the file are the UTF-8 encoding of that text, and
  when the text has no lone surrogate, reading the file again gives exactly that text.
  When \<open>s = e\<close> the lines written are the lines of the file with line \<open>s\<close> replaced
  by the block.
\<close>

theorem splice_correct:
  assumes "readFile fs p = Inr raw" and "p \<notin> readonly fs"
    and "1 \<le> s" and "s \<le> e" and "e \<le> int (length (split_lines raw))"
  shows "\<exists>indent B text. indent_of (split_lines raw ! nat (s - 1)) = Inr indent
    \<and> B = js_join [LF] (map ((@) indent) (split_lines patch))
    \<and> text = js_join [LF] (take (nat (s - 1)) (split_lines raw) @ [B] @ drop (nat e) (split_lines raw))
    \<and> modifyFileWithPatch fs p s e patch =
        (Inr (), fs\<lparr>files := (files fs)(p \<mapsto> utf8_encode text)\<rparr>)
    \<and> (isWellFormed text \<longrightarrow> readFile (snd (modifyFileWithPatch fs p s e patch)) p = Inr text)
    \<and> (s = e \<longrightarrow> take (nat (s - 1)) (split_lines raw) @ [B] @ drop (nat e) (split_lines raw)
           = (split_lines raw)[nat (s - 1) := B])"
proof -
  have "s = e \<Longrightarrow> take (nat (s - 1)) (split_lines raw) @ [B] @ drop (nat e) (split_lines raw)
           = (split_lines raw)[nat (s - 1) := B]" for B
  proof -
    assume "s = e"
    with assms have "nat (s - 1) < length (split_lines raw)" and "nat e = Suc (nat (s - 1))"
      by auto
    then show ?thesis
      by (simp add: upd_conv_take_nth_drop)
  qed
  with modify_success[OF assms, of patch] show ?thesis
    by (simp add: indent_of_eq readFile_def utf8_decode_encode)
qed

theorem splice_correct_witness:
  "readFile \<lparr>files = [ascii ''f'' \<mapsto> ([0x61, 0x0A, 0x20, 0x20, 0x62, 0x0A, 0x63, 0x0A, 0x64, 0x0A, 0x65] :: byte list)], readonly = {}\<rparr> (ascii ''f'') = Inr ([0x61, LF, SPACE, SPACE, 0x62, LF, 0x63, LF, 0x64, LF, 0x65] :: jsstring)
   \<and> ascii ''f'' \<notin> readonly \<lparr>files = [ascii ''f'' \<mapsto> ([0x61, 0x0A, 0x20, 0x20, 0x62, 0x0A, 0x63, 0x0A, 0x64, 0x0A, 0x65] :: byte list)], readonly = {}\<rparr>
   \<and> (1::int) \<le> 2 \<and> (2::int) \<le> 3 \<and> (3::int) \<le> int (length (split_lines ([0x61, LF, SPACE, SPACE, 0x62, LF, 0x63, LF, 0x64, LF, 0x65] :: jsstring)))
   \<and> modifyFileWithPatch \<lparr>files = [ascii ''f'' \<mapsto> ([0x61, 0x0A, 0x20, 0x20, 0x62, 0x0A, 0x63, 0x0A, 0x64, 0x0A, 0x65] :: byte list)], readonly = {}\<rparr> (ascii ''f'') 2 3 ([0x58, LF, 0x20ac] :: jsstring) = (Inr (), \<lparr>files = [ascii ''f'' \<mapsto> ([0x61, 0x0A, 0x20, 0x20, 0x58, 0x0A, 0x20, 0x20, 0xE2, 0x82, 0xAC, 0x0A, 0x64, 0x0A, 0x65] :: byte list)], readonly = {}\<rparr>)
   \<and> readFile (snd (modifyFileWithPatch \<lparr>files = [ascii ''f'' \<mapsto> ([0x61, 0x0A, 0x20, 0x20, 0x62, 0x0A, 0x63, 0x0A, 0x64, 0x0A, 0x65] :: byte list)], readonly = {}\<rparr> (ascii ''f'') 2 3 ([0x58, LF, 0x20ac] :: jsstring))) (ascii ''f'') = Inr ([0x61, LF, SPACE, SPACE, 0x58, LF, SPACE, SPACE, 0x20ac, LF, 0x64, LF, 0x65] :: jsstring)"
  using splice_correct [of "\<lparr>files = [ascii ''f'' \<mapsto> ([0x61, 0x0A, 0x20, 0x20, 0x62, 0x0A, 0x63, 0x0A, 0x64, 0x0A, 0x65] :: byte list)], readonly = {}\<rparr>" "ascii ''f''" "([0x61, LF, SPACE, SPACE, 0x62, LF, 0x63, LF, 0x64, LF, 0x65] :: jsstring)" 2 3 "([0x58, LF, 0x20ac] :: jsstring)"]
  by (simp add: replicate_numeral modifyFileWithPatch_def readFile_def writeFile_def indent_of_def trimStart_def isWhiteSpace_def js_slice_def ascii_def utf8_eval LF_def CR_def TAB_def SPACE_def)

section \<open>Indentation\<close>

text \<open>
  C9. The prefix put before every line of the patch consists of space characters only,
  as many as the line at \<open>startLine\<close> has leading white space code units; a line
  indented with two tabs gives a prefix of two spaces.
\<close>

theorem indentation_is_spaces:
  assumes "readFile fs p = Inr raw" and "p \<notin> readonly fs"
    and "1 \<le> s" and "s \<le> e" and "e \<le> int (length (split_lines raw))"
  shows "\<exists>W rest indent. split_lines raw ! nat (s - 1) = W @ rest
    \<and> W = takeWhile isWhiteSpace (split_lines raw ! nat (s - 1))
    \<and> rest = trimStart (split_lines raw ! nat (s - 1))
    \<and> indent = replicate (length W) SPACE
    \<and> indent_of (split_lines raw ! nat (s - 1)) = Inr indent
    \<and> modifyFileWithPatch fs p s e patch =
        (Inr (), fs\<lparr>files := (files fs)(p \<mapsto> utf8_encode (
           js_join [LF] (take (nat (s - 1)) (split_lines raw)
             @ [js_join [LF] (map (\<lambda>l. indent @ l) (split_lines patch))]
             @ drop (nat e) (split_lines raw))))\<rparr>)"
  using modify_success[OF assms, of patch]
  by (simp add: indent_of_eq trimStart_def)

theorem indentation_is_spaces_witness:
  "readFile \<lparr>files = [ascii ''f'' \<mapsto> ([0x09, 0x09, 0x66, 0x6F, 0x6F, 0x0A, 0x62, 0x61, 0x72] :: byte list)], readonly = {}\<rparr> (ascii ''f'') = Inr ([TAB, TAB, 0x66, 0x6f, 0x6f, LF, 0x62, 0x61, 0x72] :: jsstring)
   \<and> ascii ''f'' \<notin> readonly \<lparr>files = [ascii ''f'' \<mapsto> ([0x09, 0x09, 0x66, 0x6F, 0x6F, 0x0A, 0x62, 0x61, 0x72] :: byte list)], readonly = {}\<rparr>
   \<and> (1::int) \<le> 1 \<and> (1::int) \<le> 1 \<and> (1::int) \<le> int (length (split_lines ([TAB, TAB, 0x66, 0x6f, 0x6f, LF, 0x62, 0x61, 0x72] :: jsstring)))
   \<and> takeWhile isWhiteSpace (split_lines ([TAB, TAB, 0x66, 0x6f, 0x6f, LF, 0x62, 0x61, 0x72] :: jsstring) ! nat (1 - 1)) = [TAB, TAB]
   \<and> modifyFileWithPatch \<lparr>files = [ascii ''f'' \<mapsto> ([0x09, 0x09, 0x66, 0x6F, 0x6F, 0x0A, 0x62, 0x61, 0x72] :: byte list)], readonly = {}\<rparr> (ascii ''f'') 1 1 ([0x78, LF, LF, 0x79] :: jsstring) = (Inr (), \<lparr>files = [ascii ''f'' \<mapsto> ([0x20, 0x20, 0x78, 0x0A, 0x20, 0x20, 0x0A, 0x20, 0x20, 0x79, 0x0A, 0x62, 0x61, 0x72] :: byte list)], readonly = {}\<rparr>)"
  using indentation_is_spaces [of "\<lparr>files = [ascii ''f'' \<mapsto> ([0x09, 0x09, 0x66, 0x6F, 0x6F, 0x0A, 0x62, 0x61, 0x72] :: byte list)], readonly = {}\<rparr>" "ascii ''f''" "([TAB, TAB, 0x66, 0x6f, 0x6f, LF, 0x62, 0x61, 0x72] :: jsstring)" 1 1 "([0x78, LF, LF, 0x79] :: jsstring)"]
  by (simp add: replicate_numeral modifyFileWithPatch_def readFile_def writeFile_def indent_of_def trimStart_def isWhiteSpace_def js_slice_def ascii_def utf8_eval LF_def CR_def TAB_def SPACE_def)

text \<open>
  C3, as stated, fails. The leading white space run of the line at \<open>startLine\<close> is a
  tab, the patch line has no leading white space, and the line written is the patch line
  after one space, not after the tab.
\<close>

theorem exact_indentation_counterexample:
  "readFile \<lparr>files = [ascii ''f'' \<mapsto> ([0x09, 0x66, 0x6F, 0x6F] :: byte list)], readonly = {}\<rparr> (ascii ''f'') = Inr ([TAB, 0x66, 0x6f, 0x6f] :: jsstring)
   \<and> takeWhile isWhiteSpace (split_lines ([TAB, 0x66, 0x6f, 0x6f] :: jsstring) ! nat (1 - 1)) = [TAB]
   \<and> modifyFileWithPatch \<lparr>files = [ascii ''f'' \<mapsto> ([0x09, 0x66, 0x6F, 0x6F] :: byte list)], readonly = {}\<rparr> (ascii ''f'') 1 1 ([0x78] :: jsstring) = (Inr (), \<lparr>files = [ascii ''f'' \<mapsto> ([0x20, 0x78] :: byte list)], readonly = {}\<rparr>)
   \<and> readFile \<lparr>files = [ascii ''f'' \<mapsto> ([0x20, 0x78] :: byte list)], readonly = {}\<rparr> (ascii ''f'') = Inr ([SPACE, 0x78] :: jsstring)
   \<and> ([SPACE, 0x78] :: jsstring) \<noteq> js_join [LF] (map ((@) [TAB]) (split_lines ([0x78] :: jsstring)))"
  by (simp add: replicate_numeral modifyFileWithPatch_def readFile_def writeFile_def indent_of_def trimStart_def isWhiteSpace_def js_slice_def ascii_def utf8_eval LF_def CR_def TAB_def SPACE_def)

text \<open>
  C3, amended. When the leading white space run \<open>W\<close> of the line at \<open>startLine\<close>
  consists of space characters only, exactly \<open>W\<close> is put before every line of the
  patch text after splitting it on newlines, blank lines included.
\<close>

theorem space_indentation_propagated:
  assumes "readFile fs p = Inr raw" and "p \<notin> readonly fs"
    and "1 \<le> s" and "s \<le> e" and "e \<le> int (length (split_lines raw))"
    and "\<forall>c \<in> set (takeWhile isWhiteSpace (split_lines raw ! nat (s - 1))). c = SPACE"
  shows "\<exists>W. W = takeWhile isWhiteSpace (split_lines raw ! nat (s - 1))
    \<and> modifyFileWithPatch fs p s e patch =
        (Inr (), fs\<lparr>files := (files fs)(p \<mapsto> utf8_encode (
           js_join [LF] (take (nat (s - 1)) (split_lines raw)
             @ [js_join [LF] (map (\<lambda>l. W @ l) (split_lines patch))]
             @ drop (nat e) (split_lines raw))))\<rparr>)"
  using modify_success[OF assms(1-5), of patch] replicate_spaces_id[OF assms(6)]
  by simp

theorem space_indentation_propagated_witness:
  "readFile \<lparr>files = [ascii ''f'' \<mapsto> ([0x61, 0x0A, 0x20, 0x20, 0x62, 0x0A, 0x63] :: byte list)], readonly = {}\<rparr> (ascii ''f'') = Inr ([0x61, LF, SPACE, SPACE, 0x62, LF, 0x63] :: jsstring)
   \<and> ascii ''f'' \<notin> readonly \<lparr>files = [ascii ''f'' \<mapsto> ([0x61, 0x0A, 0x20, 0x20, 0x62, 0x0A, 0x63] :: byte list)], readonly = {}\<rparr>
   \<and> (1::int) \<le> 2 \<and> (2::int) \<le> 2 \<and> (2::int) \<le> int (length (split_lines ([0x61, LF, SPACE, SPACE, 0x62, LF, 0x63] :: jsstring)))
   \<and> takeWhile isWhiteSpace (split_lines ([0x61, LF, SPACE, SPACE, 0x62, LF, 0x63] :: jsstring) ! nat (2 - 1)) = [SPACE, SPACE]
   \<and> modifyFileWithPatch \<lparr>files = [ascii ''f'' \<mapsto> ([0x61, 0x0A, 0x20, 0x20, 0x62, 0x0A, 0x63] :: byte list)], readonly = {}\<rparr> (ascii ''f'') 2 2 ([0x78, LF, LF, 0x79] :: jsstring) = (Inr (), \<lparr>files = [ascii ''f'' \<mapsto> ([0x61, 0x0A, 0x20, 0x20, 0x78, 0x0A, 0x20, 0x20, 0x0A, 0x20, 0x20, 0x79, 0x0A, 0x63] :: byte list)], readonly = {}\<rparr>)"
  using space_indentation_propagated [of "\<lparr>files = [ascii ''f'' \<mapsto> ([0x61, 0x0A, 0x20, 0x20, 0x62, 0x0A, 0x63] :: byte list)], readonly = {}\<rparr>" "ascii ''f''" "([0x61, LF, SPACE, SPACE, 0x62, LF, 0x63] :: jsstring)" 2 2 "([0x78, LF, LF, 0x79] :: jsstring)"]
  by (simp add: replicate_numeral modifyFileWithPatch_def readFile_def writeFile_def indent_of_def trimStart_def isWhiteSpace_def js_slice_def ascii_def utf8_eval LF_def CR_def TAB_def SPACE_def)

section \<open>Replacing a line by itself\<close>

text \<open>
  C4, as stated, fails. Replacing line 1 by its own content, without its indentation,
  changes a file whose lines end in carriage return and line feed (the separator
  becomes a line feed), changes a file whose line 1 is indented with a tab (the tab
  becomes a space), and changes a file whose bytes are not valid UTF-8 (the byte FF is
  read as U+FFFD and written as EF BF BD).
\<close>

theorem single_line_roundtrip_counterexample:
  "modifyFileWithPatch \<lparr>files = [ascii ''f'' \<mapsto> ([0x61, 0x0D, 0x0A, 0x62] :: byte list)], readonly = {}\<rparr> (ascii ''f'') 1 1
       (trimStart (split_lines (utf8_decode ([0x61, 0x0D, 0x0A, 0x62] :: byte list)) ! nat (1 - 1)))
     = (Inr (), \<lparr>files = [ascii ''f'' \<mapsto> ([0x61, 0x0A, 0x62] :: byte list)], readonly = {}\<rparr>)
   \<and> ([0x61, 0x0A, 0x62] :: byte list) \<noteq> ([0x61, 0x0D, 0x0A, 0x62] :: byte list)
   \<and> modifyFileWithPatch \<lparr>files = [ascii ''f'' \<mapsto> ([0x09, 0x78] :: byte list)], readonly = {}\<rparr> (ascii ''f'') 1 1
       (trimStart (split_lines (utf8_decode ([0x09, 0x78] :: byte list)) ! nat (1 - 1)))
     = (Inr (), \<lparr>files = [ascii ''f'' \<mapsto> ([0x20, 0x78] :: byte list)], readonly = {}\<rparr>)
   \<and> ([0x20, 0x78] :: byte list) \<noteq> ([0x09, 0x78] :: byte list)
   \<and> modifyFileWithPatch \<lparr>files = [ascii ''f'' \<mapsto> ([0xFF, 0x0A, 0x62] :: byte list)], readonly = {}\<rparr> (ascii ''f'') 1 1
       (trimStart (split_lines (utf8_decode ([0xFF, 0x0A, 0x62] :: byte list)) ! nat (1 - 1)))
     = (Inr (), \<lparr>files = [ascii ''f'' \<mapsto> ([0xEF, 0xBF, 0xBD, 0x0A, 0x62] :: byte list)], readonly = {}\<rparr>)
   \<and> ([0xEF, 0xBF, 0xBD, 0x0A, 0x62] :: byte list) \<noteq> ([0xFF, 0x0A, 0x62] :: byte list)"
  by (simp add: replicate_numeral modifyFileWithPatch_def readFile_def writeFile_def indent_of_def trimStart_def isWhiteSpace_def js_slice_def ascii_def utf8_eval LF_def CR_def TAB_def SPACE_def)

text \<open>
  C4, amended. For a file whose bytes are valid UTF-8 (decoding and encoding them again
  gives the same bytes) and have no carriage return directly before a line feed, and a
  line \<open>k\<close> in it whose leading white space consists of space characters only,
  replacing line \<open>k\<close> by its own content without the leading white space leaves the
  file system, and so every byte of the file, as it was.
\<close>

theorem single_line_roundtrip:
  assumes "files fs p = Some bytes" and "p \<notin> readonly fs"
    and "utf8_encode (utf8_decode bytes) = bytes"
    and "\<not> js_includes bytes [0x0D, 0x0A]"
    and "1 \<le> k" and "k \<le> int (length (split_lines (utf8_decode bytes)))"
    and "\<forall>c \<in> set (takeWhile isWhiteSpace (split_lines (utf8_decode bytes) ! nat (k - 1))). c = SPACE"
  shows "modifyFileWithPatch fs p k k (trimStart (split_lines (utf8_decode bytes) ! nat (k - 1)))
    = (Inr (), fs)"
proof -
  let ?raw = "utf8_decode bytes"
  let ?L = "split_lines ?raw"
  let ?line = "?L ! nat (k - 1)"
  let ?W = "takeWhile isWhiteSpace ?line"
  have read: "readFile fs p = Inr ?raw"
    using assms(1) by (simp add: readFile_def)
  have no_crlf: "\<not> js_includes ?raw [CR, LF]"
    using assms(3,4) utf8_encode_crlf[of ?raw] by simp
  have k: "nat (k - 1) < length ?L" "nat k = Suc (nat (k - 1))"
    using assms(5,6) by auto
  then have "?line \<in> set ?L"
    by simp
  then have "LF \<notin> set ?line"
    by (rule split_lines_no_LF)
  then have "LF \<notin> set (trimStart ?line)"
    by (auto simp: trimStart_def dest: set_dropWhileD)
  then have one: "split_lines (trimStart ?line) = [trimStart ?line]"
    by (rule split_lines_single)
  have "replicate (length ?W) SPACE @ trimStart ?line = ?line"
    using replicate_spaces_id[OF assms(7)] by (simp add: trimStart_def)
  then have "js_join [LF] (take (nat (k - 1)) ?L
      @ [js_join [LF] (map ((@) (replicate (length ?W) SPACE)) (split_lines (trimStart ?line)))]
      @ drop (nat k) ?L) = js_join [LF] ?L"
    using k take_nth_drop_id[of "nat (k - 1)" ?L] by (simp add: one)
  also have "\<dots> = ?raw"
    using no_crlf by (rule join_split_id)
  finally have "modifyFileWithPatch fs p k k (trimStart ?line)
      = (Inr (), fs\<lparr>files := (files fs)(p \<mapsto> utf8_encode ?raw)\<rparr>)"
    using modify_success[OF read assms(2,5) order_refl assms(6), of "trimStart ?line"] by simp
  moreover have "(files fs)(p \<mapsto> utf8_encode ?raw) = files fs"
    using assms(1,3) by (simp add: map_upd_triv)
  ultimately show ?thesis
    by simp
qed

theorem single_line_roundtrip_witness:
  "files \<lparr>files = [ascii ''f'' \<mapsto> ([0x61, 0x0A, 0x20, 0x20, 0x62, 0xE2, 0x82, 0xAC, 0x0A, 0x63, 0x0A] :: byte list)], readonly = {}\<rparr> (ascii ''f'') = Some ([0x61, 0x0A, 0x20, 0x20, 0x62, 0xE2, 0x82, 0xAC, 0x0A, 0x63, 0x0A] :: byte list)
   \<and> ascii ''f'' \<notin> readonly \<lparr>files = [ascii ''f'' \<mapsto> ([0x61, 0x0A, 0x20, 0x20, 0x62, 0xE2, 0x82, 0xAC, 0x0A, 0x63, 0x0A] :: byte list)], readonly = {}\<rparr>
   \<and> utf8_decode ([0x61, 0x0A, 0x20, 0x20, 0x62, 0xE2, 0x82, 0xAC, 0x0A, 0x63, 0x0A] :: byte list) = ([0x61, LF, SPACE, SPACE, 0x62, 0x20ac, LF, 0x63, LF] :: jsstring)
   \<and> utf8_encode ([0x61, LF, SPACE, SPACE, 0x62, 0x20ac, LF, 0x63, LF] :: jsstring) = ([0x61, 0x0A, 0x20, 0x20, 0x62, 0xE2, 0x82, 0xAC, 0x0A, 0x63, 0x0A] :: byte list)
   \<and> \<not> js_includes ([0x61, 0x0A, 0x20, 0x20, 0x62, 0xE2, 0x82, 0xAC, 0x0A, 0x63, 0x0A] :: byte list) [0x0D, 0x0A]
   \<and> (1::int) \<le> 2 \<and> (2::int) \<le> int (length (split_lines ([0x61, LF, SPACE, SPACE, 0x62, 0x20ac, LF, 0x63, LF] :: jsstring)))
   \<and> takeWhile isWhiteSpace (split_lines ([0x61, LF, SPACE, SPACE, 0x62, 0x20ac, LF, 0x63, LF] :: jsstring) ! nat (2 - 1)) = [SPACE, SPACE]
   \<and> trimStart (split_lines ([0x61, LF, SPACE, SPACE, 0x62, 0x20ac, LF, 0x63, LF] :: jsstring) ! nat (2 - 1)) = ([0x62, 0x20ac] :: jsstring)
   \<and> modifyFileWithPatch \<lparr>files = [ascii ''f'' \<mapsto> ([0x61, 0x0A, 0x20, 0x20, 0x62, 0xE2, 0x82, 0xAC, 0x0A, 0x63, 0x0A] :: byte list)], readonly = {}\<rparr> (ascii ''f'') 2 2 ([0x62, 0x20ac] :: jsstring) = (Inr (), \<lparr>files = [ascii ''f'' \<mapsto> ([0x61, 0x0A, 0x20, 0x20, 0x62, 0xE2, 0x82, 0xAC, 0x0A, 0x63, 0x0A] :: byte list)], readonly = {}\<rparr>)"
  using single_line_roundtrip [of "\<lparr>files = [ascii ''f'' \<mapsto> ([0x61, 0x0A, 0x20, 0x20, 0x62, 0xE2, 0x82, 0xAC, 0x0A, 0x63, 0x0A] :: byte list)], readonly = {}\<rparr>" "ascii ''f''" "([0x61, 0x0A, 0x20, 0x20, 0x62, 0xE2, 0x82, 0xAC, 0x0A, 0x63, 0x0A] :: byte list)" 2]
  by (simp add: replicate_numeral modifyFileWithPatch_def readFile_def writeFile_def indent_of_def trimStart_def isWhiteSpace_def js_slice_def ascii_def utf8_eval LF_def CR_def TAB_def SPACE_def)

section \<open>Line endings of the written content\<close>

text \<open>
  C5, as stated, fails. The file has a line ending of carriage return and line feed, the
  patch of line 2 succeeds, and the content written still has a carriage return directly
  before a line feed: the regular expression takes one carriage return into the
  separator, and the one before it stays at the end of line 1.
\<close>

theorem only_LF_endings_counterexample:
  "js_includes ([0x61, 0x0D, 0x0D, 0x0A, 0x62] :: byte list) [0x0D, 0x0A]
   \<and> modifyFileWithPatch \<lparr>files = [ascii ''f'' \<mapsto> ([0x61, 0x0D, 0x0D, 0x0A, 0x62] :: byte list)], readonly = {}\<rparr> (ascii ''f'') 2 2 ([0x58] :: jsstring) = (Inr (), \<lparr>files = [ascii ''f'' \<mapsto> ([0x61, 0x0D, 0x0A, 0x58] :: byte list)], readonly = {}\<rparr>)
   \<and> js_includes ([0x61, 0x0D, 0x0A, 0x58] :: byte list) [0x0D, 0x0A]"
  by (simp add: replicate_numeral modifyFileWithPatch_def readFile_def writeFile_def indent_of_def trimStart_def isWhiteSpace_def js_slice_def ascii_def utf8_eval LF_def CR_def TAB_def SPACE_def)

text \<open>
  C5, amended. For every file, valid range and patch text, the content written is the
  kept lines and the indented patch lines joined with a single line feed, whatever
  separators the file had, and none of these pieces contains a line feed. The content
  written has a carriage return directly before a line feed exactly when one of these
  pieces other than the last ends in a carriage return, in the text and in the bytes of
  the file alike; when none does, every line ending written is a bare line feed.
\<close>

theorem written_lines_joined_by_LF:
  assumes "readFile fs p = Inr raw" and "p \<notin> readonly fs"
    and "1 \<le> s" and "s \<le> e" and "e \<le> int (length (split_lines raw))"
  shows "\<exists>indent pieces text. indent_of (split_lines raw ! nat (s - 1)) = Inr indent
    \<and> pieces = take (nat (s - 1)) (split_lines raw) @ map ((@) indent) (split_lines patch)
         @ drop (nat e) (split_lines raw)
    \<and> text = js_join [LF] pieces
    \<and> modifyFileWithPatch fs p s e patch =
         (Inr (), fs\<lparr>files := (files fs)(p \<mapsto> utf8_encode text)\<rparr>)
    \<and> (\<forall>x \<in> set pieces. LF \<notin> set x)
    \<and> (js_includes text [CR, LF] \<longleftrightarrow> (\<exists>x \<in> set (butlast pieces). x \<noteq> [] \<and> last x = CR))
    \<and> (js_includes (utf8_encode text) [0x0D, 0x0A] \<longleftrightarrow> js_includes text [CR, LF])"
proof -
  let ?L = "split_lines raw"
  let ?indent = "replicate (length (takeWhile isWhiteSpace (?L ! nat (s - 1)))) SPACE"
  let ?pieces = "take (nat (s - 1)) ?L @ map ((@) ?indent) (split_lines patch) @ drop (nat e) ?L"
  have space: "SPACE \<noteq> LF"
    by (simp add: SPACE_def LF_def)
  have piece: "LF \<notin> set x" if "x \<in> set ?pieces" for x
  proof -
    from that consider "x \<in> set ?L" | l where "l \<in> set (split_lines patch)" "x = ?indent @ l"
      by (auto dest: in_set_takeD in_set_dropD)
    then show ?thesis
      using space by cases (auto dest: split_lines_no_LF)
  qed
  then have no_lf: "\<forall>x \<in> set ?pieces. LF \<notin> set x"
    by blast
  have crlf: "js_includes (js_join [LF] ?pieces) [CR, LF]
      \<longleftrightarrow> (\<exists>x \<in> set (butlast ?pieces). x \<noteq> [] \<and> last x = CR)"
    using no_lf by (rule crlf_join_iff)
  have bytes: "js_includes (utf8_encode (js_join [LF] ?pieces)) [0x0D, 0x0A]
      \<longleftrightarrow> js_includes (js_join [LF] ?pieces) [CR, LF]"
    by (rule utf8_encode_crlf)
  have written: "modifyFileWithPatch fs p s e patch
      = (Inr (), fs\<lparr>files := (files fs)(p \<mapsto> utf8_encode (js_join [LF] ?pieces))\<rparr>)"
    using modify_success[OF assms(1-5), of patch]
      js_join_flatten[of "map ((@) ?indent) (split_lines patch)" "[LF]"
        "take (nat (s - 1)) ?L" "drop (nat e) ?L"]
    by (simp add: split_lines_not_Nil)
  have indent: "indent_of (?L ! nat (s - 1)) = Inr ?indent"
    by (rule indent_of_eq)
  show ?thesis
    by (rule exI[of _ ?indent], rule exI[of _ ?pieces], rule exI[of _ "js_join [LF] ?pieces"])
      (intro conjI refl indent written no_lf crlf bytes)
qed

theorem written_lines_joined_by_LF_witness:
  "readFile \<lparr>files = [ascii ''f'' \<mapsto> ([0x61, 0x0D, 0x0A, 0x20, 0x62, 0x0D, 0x0A, 0x63] :: byte list)], readonly = {}\<rparr> (ascii ''f'') = Inr ([0x61, CR, LF, SPACE, 0x62, CR, LF, 0x63] :: jsstring)
   \<and> ascii ''f'' \<notin> readonly \<lparr>files = [ascii ''f'' \<mapsto> ([0x61, 0x0D, 0x0A, 0x20, 0x62, 0x0D, 0x0A, 0x63] :: byte list)], readonly = {}\<rparr>
   \<and> (1::int) \<le> 2 \<and> (2::int) \<le> 2 \<and> (2::int) \<le> int (length (split_lines ([0x61, CR, LF, SPACE, 0x62, CR, LF, 0x63] :: jsstring)))
   \<and> split_lines ([0x61, CR, LF, SPACE, 0x62, CR, LF, 0x63] :: jsstring) = [([0x61] :: jsstring), ([SPACE, 0x62] :: jsstring), ([0x63] :: jsstring)]
   \<and> split_lines ([0x58, CR, LF, 0x59] :: jsstring) = [([0x58] :: jsstring), ([0x59] :: jsstring)]
   \<and> js_includes ([0x61, 0x0D, 0x0A, 0x20, 0x62, 0x0D, 0x0A, 0x63] :: byte list) [0x0D, 0x0A]
   \<and> modifyFileWithPatch \<lparr>files = [ascii ''f'' \<mapsto> ([0x61, 0x0D, 0x0A, 0x20, 0x62, 0x0D, 0x0A, 0x63] :: byte list)], readonly = {}\<rparr> (ascii ''f'') 2 2 ([0x58, CR, LF, 0x59] :: jsstring) = (Inr (), \<lparr>files = [ascii ''f'' \<mapsto> ([0x61, 0x0A, 0x20, 0x58, 0x0A, 0x20, 0x59, 0x0A, 0x63] :: byte list)], readonly = {}\<rparr>)
   \<and> \<not> js_includes ([0x61, 0x0A, 0x20, 0x58, 0x0A, 0x20, 0x59, 0x0A, 0x63] :: byte list) [0x0D, 0x0A]"
  using written_lines_joined_by_LF [of "\<lparr>files = [ascii ''f'' \<mapsto> ([0x61, 0x0D, 0x0A, 0x20, 0x62, 0x0D, 0x0A, 0x63] :: byte list)], readonly = {}\<rparr>" "ascii ''f''" "([0x61, CR, LF, SPACE, 0x62, CR, LF, 0x63] :: jsstring)" 2 2 "([0x58, CR, LF, 0x59] :: jsstring)"]
  by (simp add: replicate_numeral modifyFileWithPatch_def readFile_def writeFile_def indent_of_def trimStart_def isWhiteSpace_def js_slice_def ascii_def utf8_eval LF_def CR_def TAB_def SPACE_def)

section \<open>An empty or blank patch text\<close>

text \<open>
  C6, as stated, fails. With an empty patch text and a line at \<open>startLine\<close> indented
  by two spaces, the line written in place of the range is the two spaces, not an empty
  line.
\<close>

theorem empty_patch_counterexample:
  "readFile \<lparr>files = [ascii ''f'' \<mapsto> ([0x20, 0x20, 0x66, 0x6F, 0x6F] :: byte list)], readonly = {}\<rparr> (ascii ''f'') = Inr ([SPACE, SPACE, 0x66, 0x6f, 0x6f] :: jsstring)
   \<and> modifyFileWithPatch \<lparr>files = [ascii ''f'' \<mapsto> ([0x20, 0x20, 0x66, 0x6F, 0x6F] :: byte list)], readonly = {}\<rparr> (ascii ''f'') 1 1 [] = (Inr (), \<lparr>files = [ascii ''f'' \<mapsto> ([0x20, 0x20] :: byte list)], readonly = {}\<rparr>)
   \<and> readFile \<lparr>files = [ascii ''f'' \<mapsto> ([0x20, 0x20] :: byte list)], readonly = {}\<rparr> (ascii ''f'') = Inr ([SPACE, SPACE] :: jsstring)
   \<and> ([SPACE, SPACE] :: jsstring) \<noteq> js_join [LF] (take (nat (1 - 1)) (split_lines ([SPACE, SPACE, 0x66, 0x6f, 0x6f] :: jsstring)) @ [[]]
         @ drop (nat 1) (split_lines ([SPACE, SPACE, 0x66, 0x6f, 0x6f] :: jsstring)))"
  by (simp add: replicate_numeral modifyFileWithPatch_def readFile_def writeFile_def indent_of_def trimStart_def isWhiteSpace_def js_slice_def ascii_def utf8_eval LF_def CR_def TAB_def SPACE_def)

text \<open>
  C6, amended. For a valid range and a patch text that is empty or has white space only
  and no line feed, the range is replaced by a single line, the indentation (a run of
  spaces as long as the leading white space of the line at \<open>startLine\<close>) followed by
  the patch text: a line of white space only. For the empty patch text it is the
  indentation alone, which is the empty line exactly when the line at \<open>startLine\<close> has
  no leading white space.
\<close>

theorem blank_patch_spliced:
  assumes "readFile fs p = Inr raw" and "p \<notin> readonly fs"
    and "1 \<le> s" and "s \<le> e" and "e \<le> int (length (split_lines raw))"
    and "\<forall>c \<in> set patch. isWhiteSpace c" and "LF \<notin> set patch"
  shows "\<exists>W indent. W = takeWhile isWhiteSpace (split_lines raw ! nat (s - 1))
    \<and> indent = replicate (length W) SPACE
    \<and> modifyFileWithPatch fs p s e patch =
        (Inr (), fs\<lparr>files := (files fs)(p \<mapsto> utf8_encode (
           js_join [LF] (take (nat (s - 1)) (split_lines raw) @ [indent @ patch]
             @ drop (nat e) (split_lines raw))))\<rparr>)
    \<and> list_all isWhiteSpace (indent @ patch)
    \<and> LF \<notin> set (indent @ patch)
    \<and> (indent @ patch = [] \<longleftrightarrow> patch = [] \<and> W = [])"
proof -
  have "isWhiteSpace SPACE" and "SPACE \<noteq> LF"
    by (simp_all add: isWhiteSpace_def SPACE_def LF_def)
  with assms(6,7) modify_success[OF assms(1-5), of patch] show ?thesis
    by (auto simp: split_lines_single list_all_iff)
qed

theorem blank_patch_spliced_witness:
  "readFile \<lparr>files = [ascii ''f'' \<mapsto> ([0x61, 0x0A, 0x20, 0x20, 0x62, 0x0A, 0x63, 0x0A, 0x64] :: byte list)], readonly = {}\<rparr> (ascii ''f'') = Inr ([0x61, LF, SPACE, SPACE, 0x62, LF, 0x63, LF, 0x64] :: jsstring)
   \<and> ascii ''f'' \<notin> readonly \<lparr>files = [ascii ''f'' \<mapsto> ([0x61, 0x0A, 0x20, 0x20, 0x62, 0x0A, 0x63, 0x0A, 0x64] :: byte list)], readonly = {}\<rparr>
   \<and> (1::int) \<le> 2 \<and> (2::int) \<le> 3 \<and> (3::int) \<le> int (length (split_lines ([0x61, LF, SPACE, SPACE, 0x62, LF, 0x63, LF, 0x64] :: jsstring)))
   \<and> list_all isWhiteSpace ([SPACE, TAB] :: jsstring) \<and> LF \<notin> set ([SPACE, TAB] :: jsstring)
   \<and> modifyFileWithPatch \<lparr>files = [ascii ''f'' \<mapsto> ([0x61, 0x0A, 0x20, 0x20, 0x62, 0x0A, 0x63, 0x0A, 0x64] :: byte list)], readonly = {}\<rparr> (ascii ''f'') 2 3 ([SPACE, TAB] :: jsstring) = (Inr (), \<lparr>files = [ascii ''f'' \<mapsto> ([0x61, 0x0A, 0x20, 0x20, 0x20, 0x09, 0x0A, 0x64] :: byte list)], readonly = {}\<rparr>)
   \<and> modifyFileWithPatch \<lparr>files = [ascii ''f'' \<mapsto> ([0x61, 0x0A, 0x20, 0x20, 0x62, 0x0A, 0x63, 0x0A, 0x64] :: byte list)], readonly = {}\<rparr> (ascii ''f'') 2 3 [] = (Inr (), \<lparr>files = [ascii ''f'' \<mapsto> ([0x61, 0x0A, 0x20, 0x20, 0x0A, 0x64] :: byte list)], readonly = {}\<rparr>)"
  using blank_patch_spliced [of "\<lparr>files = [ascii ''f'' \<mapsto> ([0x61, 0x0A, 0x20, 0x20, 0x62, 0x0A, 0x63, 0x0A, 0x64] :: byte list)], readonly = {}\<rparr>" "ascii ''f''" "([0x61, LF, SPACE, SPACE, 0x62, LF, 0x63, LF, 0x64] :: jsstring)" 2 3 "([SPACE, TAB] :: jsstring)"]
    blank_patch_spliced [of "\<lparr>files = [ascii ''f'' \<mapsto> ([0x61, 0x0A, 0x20, 0x20, 0x62, 0x0A, 0x63, 0x0A, 0x64] :: byte list)], readonly = {}\<rparr>" "ascii ''f''" "([0x61, LF, SPACE, SPACE, 0x62, LF, 0x63, LF, 0x64] :: jsstring)" 2 3 "[]"]
  by (simp add: replicate_numeral modifyFileWithPatch_def readFile_def writeFile_def indent_of_def trimStart_def isWhiteSpace_def js_slice_def ascii_def utf8_eval LF_def CR_def TAB_def SPACE_def)

section \<open>Pagination of the tag listing\<close>

lemma fetchTags_loop_stop:
  assumes "api page = Body v" and "v = JArr [] \<or> (\<forall>xs. v \<noteq> JArr xs)"
  shows "fetchTags_loop api page tags requested = Some (Inr tags, requested @ [page])"
  using assms by (subst fetchTags_loop.simps) (auto split: json.splits)

lemma fetchTags_loop_next:
  assumes "api page = Body (JArr elems)" and "elems \<noteq> []" and "map_name elems = Inr ns"
  shows "fetchTags_loop api page tags requested
     = fetchTags_loop api (Suc page) (tags @ ns) (requested @ [page])"
  using assms by (subst fetchTags_loop.simps) simp

lemma fetchTags_loop_run:
  assumes "\<forall>j<d. api (page + j) = Body (JArr (elems (page + j))) \<and> elems (page + j) \<noteq> []
              \<and> map_name (elems (page + j)) = Inr (names (page + j))"
    and "api (page + d) = Body v" and "v = JArr [] \<or> (\<forall>xs. v \<noteq> JArr xs)"
  shows "fetchTags_loop api page tags requested
     = Some (Inr (tags @ concat (map names [page..<page + d])), requested @ [page..<Suc (page + d)])"
  using assms
proof (induction d arbitrary: page tags requested)
  case 0
  then show ?case
    by (simp add: fetchTags_loop_stop)
next
  case (Suc d)
  from Suc.prems(1) have here: "api page = Body (JArr (elems page))" "elems page \<noteq> []"
    "map_name (elems page) = Inr (names page)"
    by (metis add.right_neutral zero_less_Suc)+
  have later: "\<forall>j<d. api (Suc page + j) = Body (JArr (elems (Suc page + j)))
      \<and> elems (Suc page + j) \<noteq> [] \<and> map_name (elems (Suc page + j)) = Inr (names (Suc page + j))"
    using Suc.prems(1) by (metis Suc_less_eq add_Suc_shift)
  have "fetchTags_loop api (Suc page) (tags @ names page) (requested @ [page])
      = Some (Inr ((tags @ names page) @ concat (map names [Suc page..<Suc page + d])),
              (requested @ [page]) @ [Suc page..<Suc (Suc page + d)])"
    using later Suc.prems(2,3) by (intro Suc.IH) simp_all
  then show ?case
    using fetchTags_loop_next[of api page "elems page" "names page" tags requested, OF here]
    by (simp add: upt_conv_Cons del: upt_Suc)
qed

lemma map_name_names: "JNull \<notin> set elems \<Longrightarrow> map_name elems = Inr (map name_member elems)"
proof (induction elems)
  case Nil
  then show ?case by simp
next
  case (Cons t ts)
  then show ?case by (cases t) simp_all
qed

lemma fetchTags_run:
  assumes "1 \<le> k"
    and "\<forall>j \<in> {1..<k}. api token j = Body (JArr (pages j)) \<and> pages j \<noteq> []
            \<and> JNull \<notin> set (pages j)"
    and "api token k = Body v" and "v = JArr [] \<or> (\<forall>xs. v \<noteq> JArr xs)"
  shows "fetchTags api token
    = Some (Inr (concat (map (\<lambda>j. map name_member (pages j)) [1..<k])), [1..<Suc k])"
proof -
  obtain d where k: "k = 1 + d"
    using assms(1) by (metis le_Suc_ex)
  have "fetchTags_loop (api token) 1 [] []
      = Some (Inr ([] @ concat (map (\<lambda>j. map name_member (pages j)) [1..<1 + d])),
              [] @ [1..<Suc (1 + d)])"
    using assms(2,3,4) unfolding k
    by (intro fetchTags_loop_run[where v = v and elems = pages]) (auto simp: map_name_names)
  then show ?thesis
    by (simp add: fetchTags_def k)
qed

text \<open>
  C7, as stated, fails for some sequences of page responses. With an error object on
  page 2 before the first empty array on page 4, the pages 3 and 4 are never requested
  and the names of page 1 alone are returned; with a \<open>null\<close> element on page 1 the
  call raises a TypeError.
\<close>

theorem fetchTags_stops_at_empty_page_counterexample:
  "fetchTags
     (\<lambda>token page.
        if page = 1 then Body (JArr [JObj [(ascii ''name'', JStr (ascii ''a''))]])
        else if page = 2 then Body (JObj [(ascii ''message'', JStr (ascii ''API rate limit exceeded''))])
        else if page = 3 then Body (JArr [JObj [(ascii ''name'', JStr (ascii ''b''))]])
        else if page = 4 then Body (JArr [])
        else Rejected)
     (ascii ''t'')
   = Some (Inr [Some (JStr (ascii ''a''))], [1, 2])
   \<and> fetchTags
     (\<lambda>token page.
        if page = 1 then Body (JArr [JNull])
        else if page = 2 then Body (JArr [])
        else Rejected)
     (ascii ''t'')
   = Some (Inl TypeError, [1])"
  by (simp add: fetchTags_def fetchTags_loop.simps)

text \<open>
  C7, amended. When every page before the first empty-array page \<open>k\<close> answers with a
  non-empty array that has no \<open>null\<close> element, \<open>fetchTags\<close> returns: it has requested
  the pages \<open>1, 2, ..., k\<close> in this order and no other, and its result is the \<open>name\<close>
  of every element of the pages 1 to \<open>k - 1\<close>, page after page, each page in the
  order of its array. With such pages 1 to 3 and an empty page 4 this is the names of the
  pages 1 to 3, and page 5 is not requested.
\<close>

theorem fetchTags_stops_at_empty_page:
  assumes "1 \<le> k"
    and "\<forall>j \<in> {1..<k}. api token j = Body (JArr (pages j)) \<and> pages j \<noteq> []
            \<and> JNull \<notin> set (pages j)"
    and "api token k = Body (JArr [])"
  shows "fetchTags api token
    = Some (Inr (concat (map (\<lambda>j. map name_member (pages j)) [1..<k])), [1..<Suc k])"
  using assms by (intro fetchTags_run[where v = "JArr []"]) simp_all

theorem fetchTags_stops_at_empty_page_witness:
  "fetchTags
     (\<lambda>token page.
        if page = 1 then Body (JArr [JObj [(ascii ''name'', JStr (ascii ''v3''))]])
        else if page = 2 then Body (JArr [JObj [(ascii ''name'', JStr (ascii ''v2''))], JObj [(ascii ''name'', JStr (ascii ''v1''))]])
        else if page = 3 then Body (JArr [JObj [(ascii ''name'', JStr (ascii ''v0''))], JObj [], JStr (ascii ''x'')])
        else if page = 4 then Body (JArr [])
        else Rejected)
     (ascii ''t'')
   = Some (Inr [Some (JStr (ascii ''v3'')), Some (JStr (ascii ''v2'')), Some (JStr (ascii ''v1'')),
                Some (JStr (ascii ''v0'')), None, None],
           [1, 2, 3, 4])"
proof -
  let ?api = "\<lambda>(token :: jsstring) (page :: nat).
        if page = 1 then Body (JArr [JObj [(ascii ''name'', JStr (ascii ''v3''))]])
        else if page = 2 then Body (JArr [JObj [(ascii ''name'', JStr (ascii ''v2''))], JObj [(ascii ''name'', JStr (ascii ''v1''))]])
        else if page = 3 then Body (JArr [JObj [(ascii ''name'', JStr (ascii ''v0''))], JObj [], JStr (ascii ''x'')])
        else if page = 4 then Body (JArr [])
        else Rejected"
  let ?pages = "\<lambda>j :: nat.
        if j = 1 then [JObj [(ascii ''name'', JStr (ascii ''v3''))]]
        else if j = 2 then [JObj [(ascii ''name'', JStr (ascii ''v2''))], JObj [(ascii ''name'', JStr (ascii ''v1''))]]
        else [JObj [(ascii ''name'', JStr (ascii ''v0''))], JObj [], JStr (ascii ''x'')]"
  have pages: "\<forall>j \<in> {1..<4}. ?api (ascii ''t'') j = Body (JArr (?pages j)) \<and> ?pages j \<noteq> []
      \<and> JNull \<notin> set (?pages j)"
  proof
    fix j :: nat
    assume "j \<in> {1..<4}"
    then have "j = 1 \<or> j = 2 \<or> j = 3"
      by auto
    then show "?api (ascii ''t'') j = Body (JArr (?pages j)) \<and> ?pages j \<noteq> []
        \<and> JNull \<notin> set (?pages j)"
      by auto
  qed
  have stop: "?api (ascii ''t'') 4 = Body (JArr [])"
    by simp
  have pagelist: "[1..<4] = [1, 2, 3::nat]" "[1..<Suc 4] = [1, 2, 3, 4::nat]"
    by (simp_all add: upt_conv_Cons)
  have "fetchTags ?api (ascii ''t'')
      = Some (Inr (concat (map (\<lambda>j. map name_member (?pages j)) [1..<4])), [1..<Suc 4])"
    using fetchTags_stops_at_empty_page [of 4 ?api "ascii ''t''" ?pages, OF _ pages stop]
    by simp
  then show ?thesis
    unfolding pagelist by (simp add: ascii_def)
qed

text \<open>
  C10, as stated, fails for some sequences of page responses. With a \<open>null\<close> element
  on page 1 and an error object on page 2 the call raises a TypeError; with an empty
  array on page 1 and an error object on page 2 it stops at page 1 and page 2 is never
  requested.
\<close>

theorem fetchTags_stops_at_non_array_counterexample:
  "fetchTags
     (\<lambda>token page.
        if page = 1 then Body (JArr [JNull])
        else if page = 2 then Body (JObj [(ascii ''message'', JStr (ascii ''API rate limit exceeded''))])
        else Rejected)
     (ascii ''t'')
   = Some (Inl TypeError, [1])
   \<and> fetchTags
     (\<lambda>token page.
        if page = 1 then Body (JArr [])
        else if page = 2 then Body (JObj [(ascii ''message'', JStr (ascii ''API rate limit exceeded''))])
        else Rejected)
     (ascii ''t'')
   = Some (Inr [], [1])"
  by (simp add: fetchTags_def fetchTags_loop.simps)

text \<open>
  C10, amended. When every page before page \<open>k\<close> answers with a non-empty array that
  has no \<open>null\<close> element, and the answer of page \<open>k\<close> parses as a JSON value that
  is not an array, \<open>fetchTags\<close> stops at page \<open>k\<close> and returns, as its result and
  without raising an error, the \<open>name\<close> of every element of the pages before it, page
  after page in the order of the arrays.
\<close>

theorem fetchTags_stops_at_non_array:
  assumes "1 \<le> k"
    and "\<forall>j \<in> {1..<k}. api token j = Body (JArr (pages j)) \<and> pages j \<noteq> []
            \<and> JNull \<notin> set (pages j)"
    and "api token k = Body v" and "\<forall>xs. v \<noteq> JArr xs"
  shows "fetchTags api token
    = Some (Inr (concat (map (\<lambda>j. map name_member (pages j)) [1..<k])), [1..<Suc k])"
  using assms by (intro fetchTags_run[where v = v]) simp_all

theorem fetchTags_stops_at_non_array_witness:
  "fetchTags
     (\<lambda>token page.
        if page = 1 then Body (JArr [JObj [(ascii ''name'', JStr (ascii ''v3''))], JObj [(ascii ''name'', JStr (ascii ''v2''))]])
        else if page = 2 then Body (JArr [JObj [(ascii ''name'', JStr (ascii ''v1''))]])
        else if page = 3 then Body (JObj [(ascii ''message'', JStr (ascii ''API rate limit exceeded''))])
        else Rejected)
     (ascii ''t'')
   = Some (Inr [Some (JStr (ascii ''v3'')), Some (JStr (ascii ''v2'')), Some (JStr (ascii ''v1''))],
           [1, 2, 3])"
proof -
  let ?api = "\<lambda>(token :: jsstring) (page :: nat).
        if page = 1 then Body (JArr [JObj [(ascii ''name'', JStr (ascii ''v3''))], JObj [(ascii ''name'', JStr (ascii ''v2''))]])
        else if page = 2 then Body (JArr [JObj [(ascii ''name'', JStr (ascii ''v1''))]])
        else if page = 3 then Body (JObj [(ascii ''message'', JStr (ascii ''API rate limit exceeded''))])
        else Rejected"
  let ?pages = "\<lambda>j :: nat. if j = 1 then [JObj [(ascii ''name'', JStr (ascii ''v3''))], JObj [(ascii ''name'', JStr (ascii ''v2''))]] else [JObj [(ascii ''name'', JStr (ascii ''v1''))]]"
  have pages: "\<forall>j \<in> {1..<3}. ?api (ascii ''t'') j = Body (JArr (?pages j)) \<and> ?pages j \<noteq> []
      \<and> JNull \<notin> set (?pages j)"
  proof
    fix j :: nat
    assume "j \<in> {1..<3}"
    then have "j = 1 \<or> j = 2"
      by auto
    then show "?api (ascii ''t'') j = Body (JArr (?pages j)) \<and> ?pages j \<noteq> []
        \<and> JNull \<notin> set (?pages j)"
      by auto
  qed
  have stop: "?api (ascii ''t'') 3 = Body (JObj [(ascii ''message'', JStr (ascii ''API rate limit exceeded''))])"
    by simp
  have pagelist: "[1..<3] = [1, 2::nat]" "[1..<Suc 3] = [1, 2, 3::nat]"
    by (simp_all add: upt_conv_Cons)
  have "fetchTags ?api (ascii ''t'')
      = Some (Inr (concat (map (\<lambda>j. map name_member (?pages j)) [1..<3])), [1..<Suc 3])"
    using fetchTags_stops_at_non_array [of 3 ?api "ascii ''t''" ?pages "JObj [(ascii ''message'', JStr (ascii ''API rate limit exceeded''))]", OF _ pages stop]
    by simp
  then show ?thesis
    unfolding pagelist by (simp add: ascii_def)
qed

section \<open>The remediation of a failed checkout\<close>

lemma try_block_fails:
  assumes "(shell env [] (GitFetchTags ws) = Failed err \<and> before = [GitFetchTags ws])
      \<or> (shell env [] (GitFetchTags ws) = Done
          \<and> shell env [GitFetchTags ws] (GitCheckout tag ws) = Failed err
          \<and> before = [GitFetchTags ws, GitCheckout tag ws])"
  shows "try_block env ws tag = (Inl err, map Exec before)"
  using assms by (auto simp: try_block_def execAsync_def)

lemma commands_of_append: "commands_of (xs @ ys) = commands_of xs @ commands_of ys"
  by (induction xs rule: commands_of.induct) simp_all

lemma commands_of_map_Exec: "commands_of (map Exec cs) = cs"
  by (induction cs) simp_all

text \<open>
  C8, as stated, fails. The checkout fails with an error text that contains "dubious
  ownership" and the user dismisses the warning: no remediation command is run, the
  checkout is not run again, and the failure is raised.
\<close>

theorem dubious_ownership_remediation_counterexample:
  "js_includes (ascii ''fatal: detected dubious ownership in repository at /w'')
     (ascii ''dubious ownership'')
   \<and> checkoutTag
        \<lparr>workspaceFolder = Some (ascii ''/w''),
         shell = (\<lambda>before c. if c = GitCheckout (ascii ''v1'') (ascii ''/w'')
            then Failed \<lparr>stderr = Some (ascii ''fatal: detected dubious ownership in repository at /w''),
                         message = ascii ''Command failed: git checkout v1''\<rparr>
            else Done),
         userChoice = None\<rparr>
        (ascii ''v1'')
     = (Inl (JsError (ascii ''Git checkout failed: fatal: detected dubious ownership in repository at /w'')),
        [Exec (GitFetchTags (ascii ''/w'')), Exec (GitCheckout (ascii ''v1'') (ascii ''/w'')),
         ShowWarning dubious_warning])"
  by (simp add: checkoutTag_def try_block_def execAsync_def ascii_def)

text \<open>
  C8, amended. Let the first failure of the \<open>try\<close> block (of the fetch or of the
  checkout) have the error text \<open>msg\<close>, after the commands \<open>before\<close>. If \<open>msg\<close>
  contains "dubious ownership", the modal warning is shown next; if the user answers it
  with "Add & Retry", exactly one remediation command is run and, when it succeeds, the
  checkout is run exactly once more and nothing after it, the outcome of the call being
  the outcome of that checkout; when the remediation command fails the checkout is not
  run again. In every other case (the text does not contain the pattern, in which case
  no warning is shown either, or the user does not pick "Add & Retry") no remediation
  command and no further checkout is run, the call raises "Git checkout failed: msg",
  and the caller shows it to the user as an error message. The theorem gives the whole
  sequence of commands and messages of the call in each case.
\<close>

theorem dubious_ownership_remediation:
  assumes "workspaceFolder env = Some ws" and "ws \<noteq> []"
    and "(shell env [] (GitFetchTags ws) = Failed err \<and> before = [GitFetchTags ws])
      \<or> (shell env [] (GitFetchTags ws) = Done
          \<and> shell env [GitFetchTags ws] (GitCheckout tag ws) = Failed err
          \<and> before = [GitFetchTags ws, GitCheckout tag ws])"
    and "msg = (case stderr err of Some s \<Rightarrow> s | None \<Rightarrow> message err)"
    and "confirmed \<longleftrightarrow> js_includes msg (ascii ''dubious ownership'')
          \<and> userChoice env = Some (ascii ''Add & Retry'')"
  shows "checkoutTag env tag =
      (if \<not> js_includes msg (ascii ''dubious ownership'')
       then (Inl (JsError (ascii ''Git checkout failed: '' @ msg)), map Exec before)
       else if \<not> confirmed
       then (Inl (JsError (ascii ''Git checkout failed: '' @ msg)),
             map Exec before @ [ShowWarning dubious_warning])
       else (case shell env before (GitConfigSafeDirectory ws) of
               Failed e \<Rightarrow>
                 (Inl (ExecRejection e),
                  map Exec before @ [ShowWarning dubious_warning, Exec (GitConfigSafeDirectory ws)])
             | Done \<Rightarrow>
                 (case shell env (before @ [GitConfigSafeDirectory ws]) (GitCheckout tag ws) of
                    Failed e \<Rightarrow>
                      (Inl (ExecRejection e),
                       map Exec before @ [ShowWarning dubious_warning,
                         Exec (GitConfigSafeDirectory ws), Exec (GitCheckout tag ws)])
                  | Done \<Rightarrow>
                      (Inr (),
                       map Exec before @ [ShowWarning dubious_warning,
                         Exec (GitConfigSafeDirectory ws), Exec (GitCheckout tag ws),
                         ShowInformation (ascii ''safe.directory added and checked out ''
                           @ [DQUOTE] @ tag @ [DQUOTE] @ ascii ''.'')]))))
    \<and> commands_of (snd (checkoutTag env tag)) =
      before @ (if confirmed
                then (case shell env before (GitConfigSafeDirectory ws) of
                        Done \<Rightarrow> [GitConfigSafeDirectory ws, GitCheckout tag ws]
                      | Failed e \<Rightarrow> [GitConfigSafeDirectory ws])
                else [])
    \<and> (\<not> confirmed \<longrightarrow>
      fst (checkoutTag env tag) = Inl (JsError (ascii ''Git checkout failed: '' @ msg))
      \<and> fst (checkout_step env tag) = False
      \<and> last (snd (checkout_step env tag))
          = ShowError (ascii ''Error: Git checkout failed: '' @ msg))
    \<and> (confirmed \<and> shell env before (GitConfigSafeDirectory ws) = Done \<longrightarrow>
      fst (checkoutTag env tag) =
        (case shell env (before @ [GitConfigSafeDirectory ws]) (GitCheckout tag ws) of
           Done \<Rightarrow> Inr ()
         | Failed e \<Rightarrow> Inl (ExecRejection e)))"
proof -
  note tb = try_block_fails[OF assms(3)]
  have trace: "checkoutTag env tag =
      (if \<not> js_includes msg (ascii ''dubious ownership'')
       then (Inl (JsError (ascii ''Git checkout failed: '' @ msg)), map Exec before)
       else if \<not> confirmed
       then (Inl (JsError (ascii ''Git checkout failed: '' @ msg)),
             map Exec before @ [ShowWarning dubious_warning])
       else (case shell env before (GitConfigSafeDirectory ws) of
               Failed e \<Rightarrow>
                 (Inl (ExecRejection e),
                  map Exec before @ [ShowWarning dubious_warning, Exec (GitConfigSafeDirectory ws)])
             | Done \<Rightarrow>
                 (case shell env (before @ [GitConfigSafeDirectory ws]) (GitCheckout tag ws) of
                    Failed e \<Rightarrow>
                      (Inl (ExecRejection e),
                       map Exec before @ [ShowWarning dubious_warning,
                         Exec (GitConfigSafeDirectory ws), Exec (GitCheckout tag ws)])
                  | Done \<Rightarrow>
                      (Inr (),
                       map Exec before @ [ShowWarning dubious_warning,
                         Exec (GitConfigSafeDirectory ws), Exec (GitCheckout tag ws),
                         ShowInformation (ascii ''safe.directory added and checked out ''
                           @ [DQUOTE] @ tag @ [DQUOTE] @ ascii ''.'')]))))"
    using assms(1,2,4,5) tb
    by (auto simp: checkoutTag_def execAsync_def Let_def commands_of_append commands_of_map_Exec
        split: exec_result.splits)
  have commands: "commands_of (snd (checkoutTag env tag)) =
      before @ (if confirmed
                then (case shell env before (GitConfigSafeDirectory ws) of
                        Done \<Rightarrow> [GitConfigSafeDirectory ws, GitCheckout tag ws]
                      | Failed e \<Rightarrow> [GitConfigSafeDirectory ws])
                else [])"
    using assms(1,2,4,5) tb
    by (auto simp: checkoutTag_def execAsync_def Let_def commands_of_append commands_of_map_Exec
        split: exec_result.splits)
  have surfaced: "\<not> confirmed \<longrightarrow>
      fst (checkoutTag env tag) = Inl (JsError (ascii ''Git checkout failed: '' @ msg))
      \<and> fst (checkout_step env tag) = False
      \<and> last (snd (checkout_step env tag))
          = ShowError (ascii ''Error: Git checkout failed: '' @ msg)"
    using assms(1,2,4,5) tb
    by (auto simp: checkoutTag_def checkout_step_def Let_def ascii_def)
  have retried: "confirmed \<and> shell env before (GitConfigSafeDirectory ws) = Done \<longrightarrow>
      fst (checkoutTag env tag) =
        (case shell env (before @ [GitConfigSafeDirectory ws]) (GitCheckout tag ws) of
           Done \<Rightarrow> Inr ()
         | Failed e \<Rightarrow> Inl (ExecRejection e))"
    using assms(1,2,4,5) tb
    by (auto simp: checkoutTag_def execAsync_def Let_def commands_of_append commands_of_map_Exec
        split: exec_result.splits)
  from trace commands surfaced retried show ?thesis
    by (intro conjI)
qed

theorem dubious_ownership_remediation_witness:
  "checkoutTag
        \<lparr>workspaceFolder = Some (ascii ''/w''),
         shell = (\<lambda>before c. if c = GitCheckout (ascii ''v1'') (ascii ''/w'')
                \<and> GitConfigSafeDirectory (ascii ''/w'') \<notin> set before
            then Failed \<lparr>stderr = Some (ascii ''fatal: detected dubious ownership in repository at /w''),
                         message = ascii ''Command failed: git checkout v1''\<rparr>
            else Done),
         userChoice = Some (ascii ''Add & Retry'')\<rparr>
        (ascii ''v1'')
     = (Inr (),
        [Exec (GitFetchTags (ascii ''/w'')), Exec (GitCheckout (ascii ''v1'') (ascii ''/w'')),
         ShowWarning dubious_warning,
         Exec (GitConfigSafeDirectory (ascii ''/w'')), Exec (GitCheckout (ascii ''v1'') (ascii ''/w'')),
         ShowInformation (ascii ''safe.directory added and checked out '' @ [DQUOTE] @ ascii ''v1''
           @ [DQUOTE] @ ascii ''.'')])
   \<and> commands_of (snd (checkoutTag
        \<lparr>workspaceFolder = Some (ascii ''/w''),
         shell = (\<lambda>before c. if c = GitCheckout (ascii ''v1'') (ascii ''/w'')
                \<and> GitConfigSafeDirectory (ascii ''/w'') \<notin> set before
            then Failed \<lparr>stderr = Some (ascii ''fatal: detected dubious ownership in repository at /w''),
                         message = ascii ''Command failed: git checkout v1''\<rparr>
            else Done),
         userChoice = Some (ascii ''Add & Retry'')\<rparr>
        (ascii ''v1'')))
     = [GitFetchTags (ascii ''/w''), GitCheckout (ascii ''v1'') (ascii ''/w''),
        GitConfigSafeDirectory (ascii ''/w''), GitCheckout (ascii ''v1'') (ascii ''/w'')]
   \<and> checkout_step
        \<lparr>workspaceFolder = Some (ascii ''/w''),
         shell = (\<lambda>before c. if c = GitCheckout (ascii ''v9'') (ascii ''/w'')
            then Failed \<lparr>stderr = Some (ascii ''error: pathspec v9 unknown''),
                         message = ascii ''Command failed: git checkout v9''\<rparr>
            else Done),
         userChoice = Some (ascii ''Add & Retry'')\<rparr>
        (ascii ''v9'')
     = (False,
        [Exec (GitFetchTags (ascii ''/w'')), Exec (GitCheckout (ascii ''v9'') (ascii ''/w'')),
         ShowError (ascii
           ''Error: Git checkout failed: error: pathspec v9 unknown'')])"
  (is "?retry \<and> ?commands \<and> ?surfaced")
proof -
  have "?retry \<and> ?commands"
    using dubious_ownership_remediation
    [of "\<lparr>workspaceFolder = Some (ascii ''/w''),
         shell = (\<lambda>before c. if c = GitCheckout (ascii ''v1'') (ascii ''/w'')
                \<and> GitConfigSafeDirectory (ascii ''/w'') \<notin> set before
            then Failed \<lparr>stderr = Some (ascii ''fatal: detected dubious ownership in repository at /w''),
                         message = ascii ''Command failed: git checkout v1''\<rparr>
            else Done),
         userChoice = Some (ascii ''Add & Retry'')\<rparr>"
        "ascii ''/w''"
        "\<lparr>stderr = Some (ascii ''fatal: detected dubious ownership in repository at /w''),
                         message = ascii ''Command failed: git checkout v1''\<rparr>"
        "[GitFetchTags (ascii ''/w''), GitCheckout (ascii ''v1'') (ascii ''/w'')]"
        "ascii ''v1''"
        "ascii ''fatal: detected dubious ownership in repository at /w''"
        True]
    by (simp add: checkoutTag_def try_block_def execAsync_def ascii_def)
  moreover have ?surfaced
    using dubious_ownership_remediation
    [of "\<lparr>workspaceFolder = Some (ascii ''/w''),
         shell = (\<lambda>before c. if c = GitCheckout (ascii ''v9'') (ascii ''/w'')
            then Failed \<lparr>stderr = Some (ascii ''error: pathspec v9 unknown''),
                         message = ascii ''Command failed: git checkout v9''\<rparr>
            else Done),
         userChoice = Some (ascii ''Add & Retry'')\<rparr>"
        "ascii ''/w''"
        "\<lparr>stderr = Some (ascii ''error: pathspec v9 unknown''),
                         message = ascii ''Command failed: git checkout v9''\<rparr>"
        "[GitFetchTags (ascii ''/w''), GitCheckout (ascii ''v9'') (ascii ''/w'')]"
        "ascii ''v9''"
        "ascii ''error: pathspec v9 unknown''"
        False]
    by (simp add: checkoutTag_def checkout_step_def try_block_def execAsync_def ascii_def)
  ultimately show ?thesis
    by blast
qed

end
